theory Spec2Isabelle
  imports Complex_Main
begin

section \<open>The activity tracker of the dashboard page\<close>

text \<open>
  The Dashboard component keeps its state in React state cells (\<open>sessionId\<close>,
  \<open>isTracking\<close>, \<open>metrics\<close>, \<open>driftAnalysis\<close>, \<open>showAlert\<close>) and in the local
  variables of its effects (\<open>scrollTimeout\<close>, \<open>moveTimeout\<close>, \<open>moveCount\<close>,
  \<open>idleTimer\<close>, \<open>idleStartTime\<close>, the interval handles). The browser runs one callback
  at a time, so the component is a state machine: every DOM event, timer callback and
  settled request is one transition on a record holding all of that state, together
  with the clock, the requests sent so far and the requests still in flight.

  Time is counted in milliseconds. A pending timer is the instant at which it is due;
  a cleared or fired timer is \<open>None\<close>. A state update, the render it causes and the
  effects of that render form one transition. The model follows the component from
  its first render for as long as it is mounted.
\<close>

subsection \<open>Data\<close>

text \<open>
  The counters start at 0 and are only ever incremented, so they are natural numbers.
  The numbers of an analysis result are stored and shown, never computed with.
\<close>

record metrics =
  activeTime :: nat
  scrolls :: nat
  clicks :: nat
  mouseMovements :: nat
  idleTime :: nat
  tabCount :: nat

record drift_result =
  is_drifting :: bool
  confidence :: rat
  drift_score :: rat
  recommendation :: string
  factors :: "(string \<times> bool) list"

text \<open>Values placed in the \<open>data\<close> mapping of an event report.\<close>

datatype jsval = Num int | Bool bool

text \<open>The four calls made through axios, with what each one carries.\<close>

datatype request =
    SessionStart
  | TrackingEvent string string "(string \<times> jsval) list"
  | GetAnalysis string
  | DeleteSession string

text \<open>
  A request in flight, with what the suspended \<open>async\<close> function still holds.
  \<open>getDriftAnalysis\<close> reads \<open>showAlert\<close> after its \<open>await\<close>, and that name is bound in
  the render in which the callback was created: the value is the one current when the
  poll was issued, so it travels with the request.
\<close>

datatype pending = PStart | PEvent | PAnalysis bool | PDelete

datatype 'a outcome = Rejected | Resolved 'a

record tracker =
  sessionId :: "string option"
  isTracking :: bool
  metrics :: metrics
  driftAnalysis :: "drift_result option"
  showAlert :: bool
  activeTimer :: "nat option"
  scrollTimeout :: "nat option"
  moveTimeout :: "nat option"
  moveCount :: nat
  idleTimer :: "nat option"
  idleStartTime :: nat
  analysisTimer :: "nat option"
  alertTimers :: "nat list"
  now :: nat
  scrollY :: int
  hidden :: bool
  inflight :: "pending list"
  sent :: "request list"
  console :: "string list"

text \<open>The values given to \<open>useState\<close>, before any effect has run.\<close>

definition initial_metrics :: metrics where
  "initial_metrics =
     \<lparr>activeTime = 0, scrolls = 0, clicks = 0, mouseMovements = 0, idleTime = 0, tabCount = 1\<rparr>"

definition initial :: tracker where
  "initial =
     \<lparr>sessionId = None, isTracking = False, metrics = initial_metrics,
      driftAnalysis = None, showAlert = False,
      activeTimer = None, scrollTimeout = None, moveTimeout = None, moveCount = 0,
      idleTimer = None, idleStartTime = 0, analysisTimer = None, alertTimers = [],
      now = 0, scrollY = 0, hidden = False, inflight = [], sent = [], console = []\<rparr>"

text \<open>\<open>!sessionId\<close> is true of \<open>null\<close> and of the empty string.\<close>

definition truthy :: "string option \<Rightarrow> bool" where
  "truthy sid = (case sid of None \<Rightarrow> False | Some x \<Rightarrow> x \<noteq> [])"

subsection \<open>The three request functions\<close>

definition startSession :: "tracker \<Rightarrow> tracker" where
  "startSession s = s\<lparr>sent := sent s @ [SessionStart], inflight := inflight s @ [PStart]\<rparr>"

definition logEvent :: "string \<Rightarrow> (string \<times> jsval) list \<Rightarrow> tracker \<Rightarrow> tracker" where
  "logEvent eventType data s =
     (case sessionId s of
        None \<Rightarrow> s
      | Some sid \<Rightarrow>
          if sid = [] then s
          else s\<lparr>sent := sent s @ [TrackingEvent sid eventType data],
                 inflight := inflight s @ [PEvent]\<rparr>)"

definition getDriftAnalysis :: "tracker \<Rightarrow> tracker" where
  "getDriftAnalysis s =
     (case sessionId s of
        None \<Rightarrow> s
      | Some sid \<Rightarrow>
          if sid = [] then s
          else s\<lparr>sent := sent s @ [GetAnalysis sid],
                 inflight := inflight s @ [PAnalysis (showAlert s)]\<rparr>)"

subsection \<open>Effects\<close>

text \<open>
  Each effect is written as its cleanup followed by its body, run on the state after
  the update that changed one of its dependencies. A listener is attached exactly
  while \<open>isTracking\<close> holds, since every effect that attaches one has \<open>isTracking\<close>
  among its dependencies; the handlers below test the flag instead of a list of
  listeners.
\<close>

definition active_effect :: "tracker \<Rightarrow> tracker" where
  "active_effect s =
     s\<lparr>activeTimer := (if isTracking s then Some (now s + 1000) else None)\<rparr>"

definition scroll_effect :: "tracker \<Rightarrow> tracker" where
  "scroll_effect s = s\<lparr>scrollTimeout := None\<rparr>"

definition move_effect :: "tracker \<Rightarrow> tracker" where
  "move_effect s =
     (if isTracking s then s\<lparr>moveTimeout := None, moveCount := 0\<rparr>
      else s\<lparr>moveTimeout := None\<rparr>)"

definition idle_effect :: "tracker \<Rightarrow> tracker" where
  "idle_effect s =
     (if isTracking s then s\<lparr>idleTimer := Some (now s + 5000), idleStartTime := now s\<rparr>
      else s\<lparr>idleTimer := None\<rparr>)"

definition analysis_effect :: "tracker \<Rightarrow> tracker" where
  "analysis_effect s =
     s\<lparr>analysisTimer :=
         (if isTracking s \<and> truthy (sessionId s) then Some (now s + 10000) else None)\<rparr>"

text \<open>
  \<open>commit prev s\<close> is the render after a state update that turned \<open>prev\<close> into \<open>s\<close>:
  an effect runs again when one of its dependencies differs. \<open>logEvent\<close> is a new
  function when \<open>sessionId\<close> differs, \<open>getDriftAnalysis\<close> when \<open>sessionId\<close> or
  \<open>showAlert\<close> does; \<open>startSession\<close> never changes, so the mount effect runs once.
  The click and visibility effects hold no variable or timer of their own.
\<close>

definition commit :: "tracker \<Rightarrow> tracker \<Rightarrow> tracker" where
  "commit prev s =
     (let a = (isTracking prev \<noteq> isTracking s);
          b = (a \<or> sessionId prev \<noteq> sessionId s);
          c = (b \<or> showAlert prev \<noteq> showAlert s);
          s1 = (if a then active_effect s else s);
          s2 = (if b then idle_effect (move_effect (scroll_effect s1)) else s1)
      in if c then analysis_effect s2 else s2)"

subsection \<open>Event handlers and timer callbacks\<close>

definition bump_scrolls :: "metrics \<Rightarrow> metrics" where
  "bump_scrolls prev = prev\<lparr>scrolls := scrolls prev + 1\<rparr>"

definition bump_clicks :: "metrics \<Rightarrow> metrics" where
  "bump_clicks prev = prev\<lparr>clicks := clicks prev + 1\<rparr>"

definition bump_mouseMovements :: "metrics \<Rightarrow> metrics" where
  "bump_mouseMovements prev = prev\<lparr>mouseMovements := mouseMovements prev + 1\<rparr>"

definition bump_idleTime :: "metrics \<Rightarrow> metrics" where
  "bump_idleTime prev = prev\<lparr>idleTime := idleTime prev + 5\<rparr>"

definition bump_activeTime :: "metrics \<Rightarrow> metrics" where
  "bump_activeTime prev = prev\<lparr>activeTime := activeTime prev + 1\<rparr>"

definition handleScroll :: "tracker \<Rightarrow> tracker" where
  "handleScroll s = (if isTracking s then s\<lparr>scrollTimeout := Some (now s + 100)\<rparr> else s)"

definition scroll_fired :: "tracker \<Rightarrow> tracker" where
  "scroll_fired s =
     logEvent ''scroll'' [(''scrollY'', Num (scrollY s))]
       (s\<lparr>scrollTimeout := None, metrics := bump_scrolls (metrics s)\<rparr>)"

definition handleClick :: "int \<Rightarrow> int \<Rightarrow> tracker \<Rightarrow> tracker" where
  "handleClick x y s =
     (if isTracking s
      then logEvent ''click'' [(''x'', Num x), (''y'', Num y)]
             (s\<lparr>metrics := bump_clicks (metrics s)\<rparr>)
      else s)"

definition handleMouseMove :: "tracker \<Rightarrow> tracker" where
  "handleMouseMove s = s\<lparr>moveCount := moveCount s + 1, moveTimeout := Some (now s + 500)\<rparr>"

definition move_fired :: "tracker \<Rightarrow> tracker" where
  "move_fired s =
     (let s1 = s\<lparr>moveTimeout := None\<rparr>;
          s2 = (if moveCount s1 > 5
                then logEvent ''mousemove'' [(''count'', Num (int (moveCount s1)))]
                       (s1\<lparr>metrics := bump_mouseMovements (metrics s1)\<rparr>)
                else s1)
      in s2\<lparr>moveCount := 0\<rparr>)"

definition resetIdle :: "tracker \<Rightarrow> tracker" where
  "resetIdle s = s\<lparr>idleStartTime := now s\<rparr>"

text \<open>
  \<open>(Date.now() - idleStartTime) / 1000 > 5\<close> on whole milliseconds is
  \<open>now - idleStartTime > 5000\<close>.
\<close>

definition checkIdle :: "tracker \<Rightarrow> tracker" where
  "checkIdle s =
     (if now s - idleStartTime s > 5000
      then resetIdle (logEvent ''idle'' [(''duration'', Num 5)]
                        (s\<lparr>metrics := bump_idleTime (metrics s)\<rparr>))
      else s)"

definition handleVisibilityChange :: "tracker \<Rightarrow> tracker" where
  "handleVisibilityChange s =
     (if isTracking s then logEvent ''visibility'' [(''hidden'', Bool (hidden s))] s else s)"

definition startSession_settled :: "string option outcome \<Rightarrow> tracker \<Rightarrow> tracker" where
  "startSession_settled r s =
     (case r of
        Resolved newSessionId \<Rightarrow> commit s (s\<lparr>sessionId := newSessionId, isTracking := True\<rparr>)
      | Rejected \<Rightarrow> s\<lparr>console := console s @ [''Error starting session:'']\<rparr>)"

definition logEvent_settled :: "unit outcome \<Rightarrow> tracker \<Rightarrow> tracker" where
  "logEvent_settled r s =
     (case r of
        Resolved u \<Rightarrow> s
      | Rejected \<Rightarrow> s\<lparr>console := console s @ [''Error logging event:'']\<rparr>)"

definition getDriftAnalysis_settled :: "bool \<Rightarrow> drift_result outcome \<Rightarrow> tracker \<Rightarrow> tracker" where
  "getDriftAnalysis_settled showAlert0 r s =
     (case r of
        Resolved d \<Rightarrow>
          (let s1 = s\<lparr>driftAnalysis := Some d\<rparr>
           in if is_drifting d \<and> \<not> showAlert0
              then commit s (s1\<lparr>showAlert := True, alertTimers := alertTimers s1 @ [now s1 + 5000]\<rparr>)
              else s1)
      | Rejected \<Rightarrow> s\<lparr>console := console s @ [''Error getting drift analysis:'']\<rparr>)"

definition stopTracking :: "tracker \<Rightarrow> tracker" where
  "stopTracking s =
     (case sessionId s of
        None \<Rightarrow> commit s (s\<lparr>isTracking := False\<rparr>)
      | Some sid \<Rightarrow>
          if sid = [] then commit s (s\<lparr>isTracking := False\<rparr>)
          else s\<lparr>sent := sent s @ [DeleteSession sid], inflight := inflight s @ [PDelete]\<rparr>)"

definition stopTracking_settled :: "unit outcome \<Rightarrow> tracker \<Rightarrow> tracker" where
  "stopTracking_settled r s =
     (let s1 = (case r of
                  Resolved u \<Rightarrow> s
                | Rejected \<Rightarrow> s\<lparr>console := console s @ [''Error ending session:'']\<rparr>)
      in commit s1 (s1\<lparr>isTracking := False\<rparr>))"

subsection \<open>Timers\<close>

datatype timer = ActiveTick | ScrollFire | MoveFire | IdleCheck | AlertDismiss | AnalysisPoll

definition reached :: "nat option \<Rightarrow> tracker \<Rightarrow> bool" where
  "reached h s = (case h of None \<Rightarrow> False | Some t \<Rightarrow> t \<le> now s)"

fun due :: "timer \<Rightarrow> tracker \<Rightarrow> bool" where
  "due ActiveTick s = reached (activeTimer s) s"
| "due ScrollFire s = reached (scrollTimeout s) s"
| "due MoveFire s = reached (moveTimeout s) s"
| "due IdleCheck s = reached (idleTimer s) s"
| "due AlertDismiss s = (filter (\<lambda>t. t \<le> now s) (alertTimers s) \<noteq> [])"
| "due AnalysisPoll s = reached (analysisTimer s) s"

text \<open>
  The callback of each timer. An interval is armed again one period later; the
  dismissal of the alert is \<open>setShowAlert(false)\<close>, followed by the render it causes.
\<close>

fun fire :: "timer \<Rightarrow> tracker \<Rightarrow> tracker" where
  "fire ActiveTick s =
     s\<lparr>activeTimer := Some (now s + 1000), metrics := bump_activeTime (metrics s)\<rparr>"
| "fire ScrollFire s = scroll_fired s"
| "fire MoveFire s = move_fired s"
| "fire IdleCheck s = checkIdle (s\<lparr>idleTimer := Some (now s + 5000)\<rparr>)"
| "fire AlertDismiss s =
     commit s (s\<lparr>alertTimers := filter (\<lambda>t. now s < t) (alertTimers s), showAlert := False\<rparr>)"
| "fire AnalysisPoll s = getDriftAnalysis (s\<lparr>analysisTimer := Some (now s + 10000)\<rparr>)"

definition run_timer :: "timer \<Rightarrow> tracker \<Rightarrow> tracker" where
  "run_timer k s = (if due k s then fire k s else s)"

text \<open>
  One millisecond passes; the callbacks that are due run one after the other, those
  due at the same millisecond in the order written here.
\<close>

definition tick :: "tracker \<Rightarrow> tracker" where
  "tick s =
     run_timer AnalysisPoll (run_timer AlertDismiss (run_timer IdleCheck
       (run_timer MoveFire (run_timer ScrollFire (run_timer ActiveTick
          (s\<lparr>now := Suc (now s)\<rparr>))))))"

fun advance :: "nat \<Rightarrow> tracker \<Rightarrow> tracker" where
  "advance 0 s = s"
| "advance (Suc d) s = advance d (tick s)"

subsection \<open>The transition function\<close>

text \<open>
  A settled request is named by its position among the requests in flight; a
  settlement that names no request of its kind is not a possible event and changes
  nothing. The two buttons exist only in the render that shows them. A click on a
  button also reaches the click listener on the document: in a trace it is the
  button's event followed by a \<open>ClickEv\<close>.
\<close>

datatype event =
    ScrollEv int
  | ClickEv int int
  | MouseMoveEv
  | KeyPressEv
  | VisibilityEv bool
  | StartClicked
  | StopClicked
  | StartSettled nat "string option outcome"
  | EventSettled nat "unit outcome"
  | AnalysisSettled nat "drift_result outcome"
  | DeleteSettled nat "unit outcome"

definition take_pending :: "nat \<Rightarrow> tracker \<Rightarrow> tracker" where
  "take_pending i s = s\<lparr>inflight := take i (inflight s) @ drop (Suc i) (inflight s)\<rparr>"

definition pending_at :: "nat \<Rightarrow> tracker \<Rightarrow> pending option" where
  "pending_at i s = (if i < length (inflight s) then Some (inflight s ! i) else None)"

fun handle :: "event \<Rightarrow> tracker \<Rightarrow> tracker" where
  "handle (ScrollEv y) s = handleScroll (s\<lparr>scrollY := y\<rparr>)"
| "handle (ClickEv x y) s = handleClick x y s"
| "handle MouseMoveEv s = (if isTracking s then resetIdle (handleMouseMove s) else s)"
| "handle KeyPressEv s = (if isTracking s then resetIdle s else s)"
| "handle (VisibilityEv h) s = handleVisibilityChange (s\<lparr>hidden := h\<rparr>)"
| "handle StartClicked s = (if isTracking s then s else startSession s)"
| "handle StopClicked s = (if isTracking s then stopTracking s else s)"
| "handle (StartSettled i r) s =
     (case pending_at i s of
        Some PStart \<Rightarrow> startSession_settled r (take_pending i s)
      | _ \<Rightarrow> s)"
| "handle (EventSettled i r) s =
     (case pending_at i s of
        Some PEvent \<Rightarrow> logEvent_settled r (take_pending i s)
      | _ \<Rightarrow> s)"
| "handle (AnalysisSettled i r) s =
     (case pending_at i s of
        Some (PAnalysis showAlert0) \<Rightarrow> getDriftAnalysis_settled showAlert0 r (take_pending i s)
      | _ \<Rightarrow> s)"
| "handle (DeleteSettled i r) s =
     (case pending_at i s of
        Some PDelete \<Rightarrow> stopTracking_settled r (take_pending i s)
      | _ \<Rightarrow> s)"

datatype input = Ev event | Advance nat

fun step :: "tracker \<Rightarrow> input \<Rightarrow> tracker" where
  "step s (Ev e) = handle e s"
| "step s (Advance d) = advance d s"

definition run :: "tracker \<Rightarrow> input list \<Rightarrow> tracker" where
  "run s tr = foldl step s tr"

text \<open>The component after its first render: the mount effect has called \<open>startSession\<close>.\<close>

definition mounted :: tracker where
  "mounted = startSession initial"

subsection \<open>Properties stated about the tracker\<close>

text \<open>
  One update of the metrics snapshot: nothing, or one of the five increments that the
  handlers and timer callbacks pass to \<open>setMetrics\<close>.
\<close>

definition bumped :: "metrics \<Rightarrow> metrics \<Rightarrow> bool" where
  "bumped m m' =
     (m' = m \<or> m' = bump_activeTime m \<or> m' = bump_scrolls m \<or> m' = bump_clicks m \<or>
      m' = bump_mouseMovements m \<or> m' = bump_idleTime m)"

definition metrics_le :: "metrics \<Rightarrow> metrics \<Rightarrow> bool" where
  "metrics_le m m' =
     (activeTime m \<le> activeTime m' \<and> scrolls m \<le> scrolls m' \<and> clicks m \<le> clicks m' \<and>
      mouseMovements m \<le> mouseMovements m' \<and> idleTime m \<le> idleTime m' \<and>
      tabCount m = tabCount m')"

text \<open>
  The instants of all pending timers, and how long the clock can run, up to \<open>d\<close>
  milliseconds, before the first of them is due.
\<close>

definition handle_list :: "nat option \<Rightarrow> nat list" where
  "handle_list h = (case h of None \<Rightarrow> [] | Some t \<Rightarrow> [t])"

definition pending_timers :: "tracker \<Rightarrow> nat list" where
  "pending_timers s =
     handle_list (activeTimer s) @ handle_list (scrollTimeout s) @ handle_list (moveTimeout s) @
     handle_list (idleTimer s) @ handle_list (analysisTimer s) @ alertTimers s"

definition gap :: "nat \<Rightarrow> tracker \<Rightarrow> nat" where
  "gap d s = fold (\<lambda>t k. min k (t - Suc (now s))) (pending_timers s) d"

text \<open>
  States of a first session, used where a property is shown on a concrete run: the
  start request answered with the id \<open>s1\<close>; the same after 3 and after 9.999 seconds
  without any activity; and after 10 seconds, when the user has clicked Stop, with an
  idle report, an analysis poll and the session delete in flight.
\<close>

definition session_s1 :: tracker where
  "session_s1 = run mounted [Ev (StartSettled 0 (Resolved (Some ''s1'')))]"

definition session_s1_3s :: tracker where
  "session_s1_3s = run session_s1 [Advance 3000]"

definition session_s1_idle :: tracker where
  "session_s1_idle = run session_s1 [Advance 9999]"

definition session_s1_stopping :: tracker where
  "session_s1_stopping = run session_s1 [Advance 10000, Ev StopClicked]"

text \<open>
  Tracking is off and every timer owned by an effect is cleared. The dismissal
  timeouts of the alert belong to no effect and are never cleared.
\<close>

definition stopped :: "tracker \<Rightarrow> bool" where
  "stopped s =
     (\<not> isTracking s \<and> activeTimer s = None \<and> scrollTimeout s = None \<and>
      moveTimeout s = None \<and> idleTimer s = None \<and> analysisTimer s = None)"

text \<open>
  \<open>frozen s s'\<close>: \<open>s'\<close> is stopped and has the counters, the session id and the
  requests sent of \<open>s\<close>.
\<close>

definition frozen :: "tracker \<Rightarrow> tracker \<Rightarrow> bool" where
  "frozen s s' =
     (stopped s' \<and> metrics s' = metrics s \<and> sessionId s' = sessionId s \<and> sent s' = sent s)"

text \<open>The inputs that start tracking: a click on Start, a start request that succeeds.\<close>

fun restarts :: "input \<Rightarrow> bool" where
  "restarts (Ev StartClicked) = True"
| "restarts (Ev (StartSettled i (Resolved x))) = True"
| "restarts x = False"

text \<open>
  The user clicks Start while the start request of the mount effect is still out; that
  first request is answered with the id \<open>a\<close>, and the user clicks Stop.
\<close>

definition double_start_stopping :: tracker where
  "double_start_stopping =
     run mounted [Ev StartClicked, Ev (StartSettled 0 (Resolved (Some ''a''))), Ev StopClicked]"

definition drifting :: drift_result where
  "drifting =
     \<lparr>is_drifting = True, confidence = 4 / 5, drift_score = 72,
      recommendation = ''Take a short break'', factors = [(''high_idle'', True)]\<rparr>"

text \<open>The event types of the tracking endpoint.\<close>

definition event_types :: "string list" where
  "event_types = [''scroll'', ''click'', ''mousemove'', ''idle'', ''visibility'']"

text \<open>
  A request is a well-formed report for the session id \<open>sid\<close>: if it is an event
  report, it carries that id and one of the five event types.
\<close>

fun report_ok :: "string option \<Rightarrow> request \<Rightarrow> bool" where
  "report_ok sid (TrackingEvent i ty d) = (sid = Some i \<and> ty \<in> set event_types)"
| "report_ok sid r = True"

fun known_type :: "request \<Rightarrow> bool" where
  "known_type (TrackingEvent i ty d) = (ty \<in> set event_types)"
| "known_type r = True"

definition new_requests :: "tracker \<Rightarrow> tracker \<Rightarrow> request list" where
  "new_requests s s' = drop (length (sent s)) (sent s')"

text \<open>
  \<open>appends s s'\<close>: from \<open>s\<close> to \<open>s'\<close> the session id is kept and the requests sent grow
  by well-formed reports for it.
\<close>

definition appends :: "tracker \<Rightarrow> tracker \<Rightarrow> bool" where
  "appends s s' =
     (sessionId s' = sessionId s \<and> take (length (sent s)) (sent s') = sent s \<and>
      list_all (report_ok (sessionId s)) (new_requests s s'))"

text \<open>
  A burst of scroll events: after the first one, each further event comes with the
  time that passed since the one before and the vertical offset it leaves. A burst of
  mouse moves is given by the times between the moves.
\<close>

fun scroll_burst :: "(nat \<times> int) list \<Rightarrow> input list" where
  "scroll_burst [] = []"
| "scroll_burst ((g, y) # rest) = Advance g # Ev (ScrollEv y) # scroll_burst rest"

fun move_burst :: "nat list \<Rightarrow> input list" where
  "move_burst [] = []"
| "move_burst (g # gaps) = Advance g # Ev MouseMoveEv # move_burst gaps"

fun is_scroll :: "request \<Rightarrow> bool" where
  "is_scroll (TrackingEvent i ty d) = (ty = ''scroll'')"
| "is_scroll r = False"

fun is_mousemove :: "request \<Rightarrow> bool" where
  "is_mousemove (TrackingEvent i ty d) = (ty = ''mousemove'')"
| "is_mousemove r = False"

text \<open>The part of the state that the scroll effect reads and writes, and the same for mouse moves.\<close>

definition sview :: "tracker \<Rightarrow> bool \<times> string option \<times> nat option \<times> int \<times> nat \<times> request list" where
  "sview s =
     (isTracking s, sessionId s, scrollTimeout s, scrollY s, scrolls (metrics s),
      filter is_scroll (sent s))"

definition mview :: "tracker \<Rightarrow> bool \<times> string option \<times> nat option \<times> nat \<times> nat \<times> request list" where
  "mview s =
     (isTracking s, sessionId s, moveTimeout s, moveCount s, mouseMovements (metrics s),
      filter is_mousemove (sent s))"

text \<open>
  The first session after 30 seconds without any activity and without any answer from
  the backend: three analysis polls are in flight, at positions 1, 3 and 5 of the
  requests in flight, between the idle reports.
\<close>

definition three_polls :: tracker where
  "three_polls = run session_s1 [Advance 10000, Advance 10000, Advance 10000]"

text \<open>Stopped, with no dismissal timeout pending and no request in flight.\<close>

definition dormant :: "tracker \<Rightarrow> bool" where
  "dormant s = (stopped s \<and> alertTimers s = [] \<and> inflight s = [])"

section \<open>What each operation leaves alone\<close>
lemma logEvent_frame [simp]:
  "sessionId (logEvent ty d s) = sessionId s"
  "isTracking (logEvent ty d s) = isTracking s"
  "metrics (logEvent ty d s) = metrics s"
  "driftAnalysis (logEvent ty d s) = driftAnalysis s"
  "showAlert (logEvent ty d s) = showAlert s"
  "activeTimer (logEvent ty d s) = activeTimer s"
  "scrollTimeout (logEvent ty d s) = scrollTimeout s"
  "moveTimeout (logEvent ty d s) = moveTimeout s"
  "moveCount (logEvent ty d s) = moveCount s"
  "idleTimer (logEvent ty d s) = idleTimer s"
  "idleStartTime (logEvent ty d s) = idleStartTime s"
  "analysisTimer (logEvent ty d s) = analysisTimer s"
  "alertTimers (logEvent ty d s) = alertTimers s"
  "now (logEvent ty d s) = now s"
  "scrollY (logEvent ty d s) = scrollY s"
  "hidden (logEvent ty d s) = hidden s"
  "console (logEvent ty d s) = console s"
  by (simp_all add: logEvent_def split: option.split)

lemma logEvent_sent:
  "sent (logEvent ty d s) =
     sent s @ (case sessionId s of None \<Rightarrow> [] | Some sid \<Rightarrow> if sid = [] then [] else [TrackingEvent sid ty d])"
  by (simp add: logEvent_def split: option.split)

lemma getDriftAnalysis_frame [simp]:
  "sessionId (getDriftAnalysis s) = sessionId s"
  "isTracking (getDriftAnalysis s) = isTracking s"
  "metrics (getDriftAnalysis s) = metrics s"
  "driftAnalysis (getDriftAnalysis s) = driftAnalysis s"
  "showAlert (getDriftAnalysis s) = showAlert s"
  "activeTimer (getDriftAnalysis s) = activeTimer s"
  "scrollTimeout (getDriftAnalysis s) = scrollTimeout s"
  "moveTimeout (getDriftAnalysis s) = moveTimeout s"
  "moveCount (getDriftAnalysis s) = moveCount s"
  "idleTimer (getDriftAnalysis s) = idleTimer s"
  "idleStartTime (getDriftAnalysis s) = idleStartTime s"
  "analysisTimer (getDriftAnalysis s) = analysisTimer s"
  "alertTimers (getDriftAnalysis s) = alertTimers s"
  "now (getDriftAnalysis s) = now s"
  "scrollY (getDriftAnalysis s) = scrollY s"
  "hidden (getDriftAnalysis s) = hidden s"
  "console (getDriftAnalysis s) = console s"
  by (simp_all add: getDriftAnalysis_def split: option.split)

lemma getDriftAnalysis_sent:
  "sent (getDriftAnalysis s) =
     sent s @ (case sessionId s of None \<Rightarrow> [] | Some sid \<Rightarrow> if sid = [] then [] else [GetAnalysis sid])"
  by (simp add: getDriftAnalysis_def split: option.split)

lemmas effect_defs = active_effect_def scroll_effect_def move_effect_def idle_effect_def
  analysis_effect_def

lemma commit_frame [simp]:
  "sessionId (commit p s) = sessionId s"
  "isTracking (commit p s) = isTracking s"
  "metrics (commit p s) = metrics s"
  "driftAnalysis (commit p s) = driftAnalysis s"
  "showAlert (commit p s) = showAlert s"
  "alertTimers (commit p s) = alertTimers s"
  "now (commit p s) = now s"
  "scrollY (commit p s) = scrollY s"
  "hidden (commit p s) = hidden s"
  "inflight (commit p s) = inflight s"
  "sent (commit p s) = sent s"
  "console (commit p s) = console s"
  by (simp_all add: commit_def effect_defs Let_def)

lemma commit_same:
  "isTracking p = isTracking s \<Longrightarrow> sessionId p = sessionId s \<Longrightarrow>
   commit p s = (if showAlert p \<noteq> showAlert s then analysis_effect s else s)"
  by (simp add: commit_def Let_def)

lemma bumped_refl [simp]: "bumped m m"
  by (simp add: bumped_def)

lemma bumped_bump [simp]:
  "bumped m (bump_activeTime m)" "bumped m (bump_scrolls m)" "bumped m (bump_clicks m)"
  "bumped m (bump_mouseMovements m)" "bumped m (bump_idleTime m)"
  by (simp_all add: bumped_def)

lemmas settled_defs = startSession_settled_def logEvent_settled_def
  getDriftAnalysis_settled_def stopTracking_settled_def

lemma handle_bumped: "bumped (metrics s) (metrics (handle e s))"
  by (cases e)
     (simp_all add: handleScroll_def handleClick_def handleMouseMove_def resetIdle_def
        handleVisibilityChange_def startSession_def stopTracking_def settled_defs
        take_pending_def Let_def
        split: option.split pending.split outcome.split)

lemma fire_bumped: "bumped (metrics s) (metrics (fire k s))"
  by (cases k)
     (simp_all add: scroll_fired_def move_fired_def checkIdle_def resetIdle_def Let_def)

section \<open>Counters only grow\<close>

lemma bumped_le: "bumped m m' \<Longrightarrow> metrics_le m m'"
  by (auto simp: bumped_def metrics_le_def bump_activeTime_def bump_scrolls_def
      bump_clicks_def bump_mouseMovements_def bump_idleTime_def)

lemma metrics_le_refl [simp]: "metrics_le m m"
  by (simp add: metrics_le_def)

lemma metrics_le_trans: "metrics_le a b \<Longrightarrow> metrics_le b c \<Longrightarrow> metrics_le a c"
  by (auto simp: metrics_le_def)

lemma run_timer_le: "metrics_le (metrics s) (metrics (run_timer k s))"
  by (simp add: run_timer_def bumped_le fire_bumped)

lemma tick_le: "metrics_le (metrics s) (metrics (tick s))"
proof -
  let ?s0 = "s\<lparr>now := Suc (now s)\<rparr>"
  have "metrics_le (metrics ?s0) (metrics (tick s))"
    unfolding tick_def
    by (rule metrics_le_trans [OF _ run_timer_le])+ (rule metrics_le_refl)
  then show ?thesis by simp
qed

lemma advance_le: "metrics_le (metrics s) (metrics (advance d s))"
proof (induction d arbitrary: s)
  case 0
  show ?case by simp
next
  case (Suc d)
  show ?case using metrics_le_trans [OF tick_le [of s] Suc [of "tick s"]]
    by simp
qed

lemma step_le: "metrics_le (metrics s) (metrics (step s i))"
  by (cases i) (simp_all add: advance_le bumped_le handle_bumped)

lemma run_Nil [simp]: "run s [] = s"
  by (simp add: run_def)

lemma run_Cons [simp]: "run s (i # tr) = run (step s i) tr"
  by (simp add: run_def)

lemma run_append: "run s (tr @ tr') = run (run s tr) tr'"
  by (simp add: run_def)

lemma run_le: "metrics_le (metrics s) (metrics (run s tr))"
proof (induction tr arbitrary: s)
  case Nil
  show ?case by simp
next
  case (Cons i tr)
  show ?case using metrics_le_trans [OF step_le [of s i] Cons [of "step s i"]]
    by simp
qed

section \<open>Letting the clock run to the next timer\<close>

lemma pending_timers_now [simp]: "pending_timers (s\<lparr>now := n\<rparr>) = pending_timers s"
  by (simp add: pending_timers_def)

lemma run_timer_quiet:
  assumes "\<forall>t\<in>set (pending_timers s). now s < t"
  shows "run_timer k s = s"
proof -
  have "\<not> due k s"
  proof (cases k)
    case AlertDismiss
    have "now s < t" if "t \<in> set (alertTimers s)" for t
      using assms that by (simp add: pending_timers_def)
    then have "\<forall>t\<in>set (alertTimers s). \<not> t \<le> now s"
      by (auto simp: not_le)
    then show ?thesis
      using AlertDismiss by (simp add: filter_empty_conv)
  qed (use assms in \<open>auto simp: reached_def pending_timers_def handle_list_def
         split: option.splits\<close>)
  then show ?thesis by (simp add: run_timer_def)
qed

lemma tick_quiet:
  assumes "\<forall>t\<in>set (pending_timers s). Suc (now s) < t"
  shows "tick s = s\<lparr>now := Suc (now s)\<rparr>"
proof -
  have "\<forall>t\<in>set (pending_timers (s\<lparr>now := Suc (now s)\<rparr>)). now (s\<lparr>now := Suc (now s)\<rparr>) < t"
    using assms by simp
  then show ?thesis
    unfolding tick_def by (simp only: run_timer_quiet)
qed

lemma advance_quiet:
  "\<forall>t\<in>set (pending_timers s). now s + d < t \<Longrightarrow> advance d s = s\<lparr>now := now s + d\<rparr>"
proof (induction d arbitrary: s)
  case 0
  show ?case by simp
next
  case (Suc d)
  have q: "\<forall>t\<in>set (pending_timers s). Suc (now s) < t"
    using Suc.prems by auto
  have "advance (Suc d) s = advance d (s\<lparr>now := Suc (now s)\<rparr>)"
    by (simp add: tick_quiet [OF q])
  also have "\<dots> = s\<lparr>now := Suc (now s)\<rparr>\<lparr>now := now (s\<lparr>now := Suc (now s)\<rparr>) + d\<rparr>"
    by (rule Suc.IH) (use Suc.prems in simp)
  finally show ?case by simp
qed

lemma advance_add: "advance (a + b) s = advance b (advance a s)"
  by (induction a arbitrary: s) simp_all

lemma fold_min_le: "fold (\<lambda>t k. min k (f t)) xs (d::nat) \<le> d"
proof (induction xs arbitrary: d)
  case Nil
  show ?case by simp
next
  case (Cons x xs)
  show ?case using Cons [of "min d (f x)"] by simp
qed

lemma fold_min_le_elem: "t \<in> set xs \<Longrightarrow> fold (\<lambda>t k. min k (f t)) xs (d::nat) \<le> f t"
proof (induction xs arbitrary: d)
  case Nil
  then show ?case by simp
next
  case (Cons x xs)
  show ?case
  proof (cases "t = x")
    case True
    have "fold (\<lambda>t k. min k (f t)) xs (min d (f x)) \<le> min d (f x)"
      by (rule fold_min_le)
    then show ?thesis using True by simp
  next
    case False
    then show ?thesis using Cons by simp
  qed
qed

lemma advance_jump:
  assumes "0 < d"
  shows "advance d s = advance (d - Suc (gap (d - 1) s)) (tick (s\<lparr>now := now s + gap (d - 1) s\<rparr>))"
proof -
  define k where "k = gap (d - 1) s"
  have kd: "k \<le> d - 1"
    unfolding k_def gap_def by (rule fold_min_le)
  have skip: "advance k s = s\<lparr>now := now s + k\<rparr>"
  proof (cases "k = 0")
    case True
    then show ?thesis by simp
  next
    case False
    have "\<forall>t\<in>set (pending_timers s). now s + k < t"
    proof
      fix t assume "t \<in> set (pending_timers s)"
      then have "k \<le> t - Suc (now s)"
        unfolding k_def gap_def by (rule fold_min_le_elem)
      with False show "now s + k < t" by arith
    qed
    then show ?thesis by (rule advance_quiet)
  qed
  have "d = k + Suc (d - Suc k)" using kd assms by arith
  then have "advance d s = advance (k + Suc (d - Suc k)) s" by simp
  also have "\<dots> = advance (d - Suc k) (tick (advance k s))"
    by (simp only: advance_add advance.simps)
  finally have "advance d s = advance (d - Suc k) (tick (s\<lparr>now := now s + k\<rparr>))"
    by (simp only: skip)
  then show ?thesis by (simp only: k_def)
qed


lemmas eval_defs = gap_def pending_timers_def handle_list_def tick_def run_timer_def reached_def
  scroll_fired_def move_fired_def checkIdle_def resetIdle_def logEvent_def getDriftAnalysis_def
  commit_def effect_defs truthy_def Let_def settled_defs take_pending_def pending_at_def
  handleScroll_def handleClick_def handleMouseMove_def handleVisibilityChange_def
  startSession_def stopTracking_def bump_activeTime_def bump_scrolls_def bump_clicks_def
  bump_mouseMovements_def bump_idleTime_def mounted_def initial_def initial_metrics_def run_def

section \<open>The example states, evaluated\<close>

lemma session_s1_eq:
  "session_s1 =
     \<lparr>sessionId = Some ''s1'', isTracking = True, metrics = initial_metrics,
      driftAnalysis = None, showAlert = False,
      activeTimer = Some 1000, scrollTimeout = None, moveTimeout = None, moveCount = 0,
      idleTimer = Some 5000, idleStartTime = 0, analysisTimer = Some 10000, alertTimers = [],
      now = 0, scrollY = 0, hidden = False, inflight = [], sent = [SessionStart], console = []\<rparr>"
  by (simp add: session_s1_def eval_defs)

lemma session_s1_3s_eq:
  "session_s1_3s =
     session_s1\<lparr>now := 3000, activeTimer := Some 4000,
       metrics := initial_metrics\<lparr>activeTime := 3\<rparr>\<rparr>"
  by (simp add: session_s1_3s_def session_s1_eq advance_jump eval_defs)

lemma session_s1_idle_eq:
  "session_s1_idle =
     session_s1\<lparr>now := 9999, activeTimer := Some 10000, idleTimer := Some 10000,
       metrics := initial_metrics\<lparr>activeTime := 9\<rparr>\<rparr>"
  by (simp add: session_s1_idle_def session_s1_eq advance_jump eval_defs)

lemma session_s1_stopping_eq:
  "session_s1_stopping =
     session_s1\<lparr>now := 10000, activeTimer := Some 11000, idleTimer := Some 15000,
       idleStartTime := 10000, analysisTimer := Some 20000,
       metrics := initial_metrics\<lparr>activeTime := 10, idleTime := 5\<rparr>,
       inflight := [PEvent, PAnalysis False, PDelete],
       sent := [SessionStart, TrackingEvent ''s1'' ''idle'' [(''duration'', Num 5)],
                GetAnalysis ''s1'', DeleteSession ''s1'']\<rparr>"
  by (simp add: session_s1_stopping_def session_s1_eq advance_jump eval_defs)

lemma three_polls_eq:
  "three_polls =
     session_s1\<lparr>now := 30000, activeTimer := Some 31000, idleTimer := Some 35000,
       idleStartTime := 30000, analysisTimer := Some 40000,
       metrics := initial_metrics\<lparr>activeTime := 30, idleTime := 15\<rparr>,
       inflight := [PEvent, PAnalysis False, PEvent, PAnalysis False, PEvent, PAnalysis False],
       sent := [SessionStart, TrackingEvent ''s1'' ''idle'' [(''duration'', Num 5)],
                GetAnalysis ''s1'', TrackingEvent ''s1'' ''idle'' [(''duration'', Num 5)],
                GetAnalysis ''s1'', TrackingEvent ''s1'' ''idle'' [(''duration'', Num 5)],
                GetAnalysis ''s1'']\<rparr>"
  by (simp add: three_polls_def session_s1_eq advance_jump eval_defs)

lemma double_start_stopping_eq:
  "double_start_stopping =
     \<lparr>sessionId = Some ''a'', isTracking = True, metrics = initial_metrics,
      driftAnalysis = None, showAlert = False,
      activeTimer = Some 1000, scrollTimeout = None, moveTimeout = None, moveCount = 0,
      idleTimer = Some 5000, idleStartTime = 0, analysisTimer = Some 10000, alertTimers = [],
      now = 0, scrollY = 0, hidden = False, inflight = [PStart, PDelete],
      sent = [SessionStart, SessionStart, DeleteSession ''a''], console = []\<rparr>"
  by (simp add: double_start_stopping_def eval_defs)


section \<open>While tracking is off\<close>

lemma frozen_refl: "stopped s \<Longrightarrow> frozen s s"
  by (simp add: frozen_def)

lemma frozen_trans: "frozen a b \<Longrightarrow> frozen b c \<Longrightarrow> frozen a c"
  by (simp add: frozen_def)

lemma frozen_stopped: "frozen a b \<Longrightarrow> stopped b"
  by (simp add: frozen_def)

lemma stopped_handle:
  assumes "stopped s" and "\<not> restarts (Ev e)"
  shows "frozen s (handle e s)"
proof (cases e)
  case (StartSettled i r)
  with assms show ?thesis
    by (cases r)
       (simp_all add: frozen_def stopped_def settled_defs take_pending_def
          split: option.split pending.split)
next
  case (AnalysisSettled i r)
  with assms show ?thesis
    by (cases r)
       (simp_all add: frozen_def stopped_def settled_defs take_pending_def commit_def
          effect_defs Let_def split: option.split pending.split)
next
  case (DeleteSettled i r)
  with assms show ?thesis
    by (cases r)
       (simp_all add: frozen_def stopped_def settled_defs take_pending_def commit_def
          effect_defs Let_def split: option.split pending.split)
next
  case (EventSettled i r)
  with assms show ?thesis
    by (cases r)
       (simp_all add: frozen_def stopped_def settled_defs take_pending_def
          split: option.split pending.split)
qed (use assms in \<open>simp_all add: frozen_def stopped_def handleScroll_def handleClick_def
       handleVisibilityChange_def\<close>)

lemma stopped_run_timer:
  assumes "stopped s"
  shows "frozen s (run_timer k s)"
  using assms
  by (cases k)
     (simp_all add: run_timer_def reached_def frozen_def stopped_def commit_def effect_defs
        Let_def)

lemma stopped_tick:
  assumes "stopped s"
  shows "frozen s (tick s)"
proof -
  let ?s0 = "s\<lparr>now := Suc (now s)\<rparr>"
  have 0: "frozen s ?s0"
    using assms by (simp add: frozen_def stopped_def)
  have step: "frozen s (run_timer k x)" if "frozen s x" for k x
    using frozen_trans [OF that stopped_run_timer [OF frozen_stopped [OF that]]] .
  show ?thesis
    unfolding tick_def by (intro step 0)
qed

lemma stopped_advance: "stopped s \<Longrightarrow> frozen s (advance d s)"
proof (induction d arbitrary: s)
  case 0
  then show ?case by (simp add: frozen_refl)
next
  case (Suc d)
  have t: "frozen s (tick s)"
    by (rule stopped_tick [OF Suc.prems])
  have "frozen (tick s) (advance d (tick s))"
    by (rule Suc.IH [OF frozen_stopped [OF t]])
  with t show ?case
    by (simp add: frozen_trans)
qed

lemma stopped_step: "stopped s \<Longrightarrow> \<not> restarts i \<Longrightarrow> frozen s (step s i)"
  by (cases i) (simp_all add: stopped_handle stopped_advance)

lemma stopped_run:
  "stopped s \<Longrightarrow> \<forall>x\<in>set tr. \<not> restarts x \<Longrightarrow> frozen s (run s tr)"
proof (induction tr arbitrary: s)
  case Nil
  then show ?case by (simp add: frozen_refl)
next
  case (Cons i tr)
  have a: "frozen s (step s i)"
    using Cons.prems by (simp add: stopped_step)
  have "frozen (step s i) (run (step s i) tr)"
    using Cons.prems by (intro Cons.IH frozen_stopped [OF a]) simp
  with a show ?case
    by (simp add: frozen_trans)
qed

section \<open>What is sent\<close>

lemma appendsI:
  "sessionId s' = sessionId s \<Longrightarrow> sent s' = sent s @ new \<Longrightarrow>
   list_all (report_ok (sessionId s)) new \<Longrightarrow> appends s s'"
  by (simp add: appends_def new_requests_def)

lemma appends_refl [simp]: "appends s s"
  by (simp add: appends_def new_requests_def)

lemma appendsD:
  assumes "appends s s'"
  shows "sent s' = sent s @ new_requests s s'"
  using assms append_take_drop_id [of "length (sent s)" "sent s'"]
  unfolding appends_def new_requests_def by metis

lemma appends_trans:
  assumes "appends a b" and "appends b c"
  shows "appends a c"
proof -
  have 1: "sent b = sent a @ new_requests a b" and 2: "sent c = sent b @ new_requests b c"
    using assms by (simp_all add: appendsD)
  have "sent c = sent a @ (new_requests a b @ new_requests b c)"
    using 1 2 by simp
  moreover have "list_all (report_ok (sessionId a)) (new_requests a b @ new_requests b c)"
    using assms by (simp add: appends_def)
  moreover have "sessionId c = sessionId a"
    using assms by (simp add: appends_def)
  ultimately show ?thesis
    by (rule appendsI [rotated])
qed

lemma logEvent_appends:
  "ty \<in> set event_types \<Longrightarrow> appends s (logEvent ty d s)"
  by (rule appendsI [where new = "case sessionId s of None \<Rightarrow> [] | Some sid \<Rightarrow>
        if sid = [] then [] else [TrackingEvent sid ty d]"])
     (simp_all add: logEvent_sent split: option.split)

lemma appends_same_sent:
  "sessionId s' = sessionId s \<Longrightarrow> sent s' = sent s \<Longrightarrow> appends s s'"
  by (rule appendsI [where new = "[]"]) simp_all

lemma appends_upd:
  "sessionId s0 = sessionId s \<Longrightarrow> sent s0 = sent s \<Longrightarrow> appends s0 s' \<Longrightarrow> appends s s'"
  by (simp add: appends_def new_requests_def)

lemma fire_appends: "appends s (fire k s)"
proof (cases k)
  case ScrollFire
  show ?thesis
    unfolding ScrollFire fire.simps scroll_fired_def
    by (rule appends_upd [OF _ _ logEvent_appends]) (simp_all add: event_types_def)
next
  case MoveFire
  have "appends s (logEvent ''mousemove'' [(''count'', Num (int (moveCount s)))]
          (s\<lparr>moveTimeout := None, metrics := bump_mouseMovements (metrics s)\<rparr>))"
    by (rule appends_upd [OF _ _ logEvent_appends]) (simp_all add: event_types_def)
  then show ?thesis
    unfolding MoveFire fire.simps move_fired_def
    by (simp add: Let_def appends_def new_requests_def)
next
  case IdleCheck
  have "appends s (logEvent ''idle'' [(''duration'', Num 5)]
          (s\<lparr>idleTimer := Some (now s + 5000), metrics := bump_idleTime (metrics s)\<rparr>))"
    by (rule appends_upd [OF _ _ logEvent_appends]) (simp_all add: event_types_def)
  then show ?thesis
    unfolding IdleCheck fire.simps checkIdle_def resetIdle_def
    by (simp add: appends_def new_requests_def)
next
  case AnalysisPoll
  show ?thesis
    unfolding AnalysisPoll fire.simps
    by (rule appendsI [where new = "case sessionId s of None \<Rightarrow> [] | Some sid \<Rightarrow>
        if sid = [] then [] else [GetAnalysis sid]"])
       (simp_all add: getDriftAnalysis_sent split: option.split)
qed (simp_all add: appends_same_sent)

lemma run_timer_appends: "appends s (run_timer k s)"
  by (simp add: run_timer_def fire_appends)

lemma tick_appends: "appends s (tick s)"
proof -
  let ?s0 = "s\<lparr>now := Suc (now s)\<rparr>"
  have 0: "appends s ?s0"
    by (simp add: appends_same_sent)
  have step: "appends s (run_timer k x)" if "appends s x" for k x
    using that run_timer_appends by (rule appends_trans)
  show ?thesis
    unfolding tick_def by (intro step 0)
qed

lemma advance_appends: "appends s (advance d s)"
proof (induction d arbitrary: s)
  case 0
  show ?case by simp
next
  case (Suc d)
  show ?case
    using appends_trans [OF tick_appends [of s] Suc [of "tick s"]] by simp
qed

lemma handle_sent:
  "take (length (sent s)) (sent (handle e s)) = sent s \<and>
   list_all (report_ok (sessionId s)) (new_requests s (handle e s))"
proof (cases e)
  case (ScrollEv y)
  then show ?thesis by (simp add: handleScroll_def new_requests_def)
next
  case (ClickEv x y)
  have "appends s (logEvent ''click'' [(''x'', Num x), (''y'', Num y)]
          (s\<lparr>metrics := bump_clicks (metrics s)\<rparr>))"
    by (rule appends_upd [OF _ _ logEvent_appends]) (simp_all add: event_types_def)
  then show ?thesis
    using ClickEv by (simp add: handleClick_def appends_def new_requests_def)
next
  case (VisibilityEv h)
  have "appends s (logEvent ''visibility'' [(''hidden'', Bool h)] (s\<lparr>hidden := h\<rparr>))"
    by (rule appends_upd [OF _ _ logEvent_appends]) (simp_all add: event_types_def)
  then show ?thesis
    using VisibilityEv by (simp add: handleVisibilityChange_def appends_def new_requests_def)
next
  case StopClicked
  then show ?thesis
    by (simp add: stopTracking_def new_requests_def split: option.split)
qed (simp_all add: new_requests_def handleMouseMove_def resetIdle_def startSession_def
       settled_defs take_pending_def Let_def split: option.split pending.split outcome.split)

lemma step_sent:
  "take (length (sent s)) (sent (step s i)) = sent s \<and>
   list_all (report_ok (sessionId s)) (new_requests s (step s i))"
proof (cases i)
  case (Ev e)
  then show ?thesis by (simp add: handle_sent)
next
  case (Advance d)
  then show ?thesis using advance_appends [of s d] by (simp add: appends_def)
qed

lemma report_ok_known: "report_ok sid r \<Longrightarrow> known_type r"
  by (cases r) simp_all

lemma step_known:
  assumes "list_all known_type (sent s)"
  shows "list_all known_type (sent (step s i))"
proof -
  have "sent (step s i) = take (length (sent s)) (sent (step s i)) @ new_requests s (step s i)"
    by (simp add: new_requests_def)
  then have "sent (step s i) = sent s @ new_requests s (step s i)"
    by (simp add: step_sent)
  moreover have "list_all known_type (new_requests s (step s i))"
    using step_sent [of s i] by (auto simp: list_all_iff intro: report_ok_known)
  ultimately show ?thesis
    using assms by simp
qed

lemma run_known: "list_all known_type (sent s) \<Longrightarrow> list_all known_type (sent (run s tr))"
  by (induction tr arbitrary: s) (simp_all add: step_known)

section \<open>Debounced signals\<close>

lemmas bump_defs = bump_activeTime_def bump_scrolls_def bump_clicks_def
  bump_mouseMovements_def bump_idleTime_def

lemma now_run_timer [simp]: "now (run_timer k s) = now s"
  by (cases k)
     (simp_all add: run_timer_def scroll_fired_def move_fired_def checkIdle_def resetIdle_def
        Let_def)

lemma now_tick [simp]: "now (tick s) = Suc (now s)"
  by (simp add: tick_def)

lemma now_advance [simp]: "now (advance d s) = now s + d"
  by (induction d arbitrary: s) simp_all

lemma advance_Suc_end: "advance (Suc d) s = tick (advance d s)"
  using advance_add [of d "Suc 0" s] by simp

subsection \<open>The scroll timeout while time passes\<close>

lemma sview_now [simp]: "sview (s\<lparr>now := n\<rparr>) = sview s"
  by (simp add: sview_def)

lemma run_timer_sview: "k \<noteq> ScrollFire \<Longrightarrow> sview (run_timer k s) = sview s"
  by (cases k)
     (simp_all add: sview_def run_timer_def move_fired_def checkIdle_def resetIdle_def Let_def
        logEvent_sent getDriftAnalysis_sent bump_defs commit_same analysis_effect_def
        split: option.split)

lemma tick_sview:
  "sview (tick s) = sview (run_timer ScrollFire (run_timer ActiveTick (s\<lparr>now := Suc (now s)\<rparr>)))"
  by (simp add: tick_def run_timer_sview)

lemma run_timer_scroll_wait:
  "scrollTimeout s = Some t \<Longrightarrow> now s < t \<Longrightarrow> run_timer ScrollFire s = s"
  by (simp add: run_timer_def reached_def)

lemma run_timer_scroll_fire:
  "scrollTimeout s = Some t \<Longrightarrow> t \<le> now s \<Longrightarrow> sessionId s = Some sid \<Longrightarrow> sid \<noteq> [] \<Longrightarrow>
   sview (run_timer ScrollFire s) =
     (isTracking s, Some sid, None, scrollY s, scrolls (metrics s) + 1,
      filter is_scroll (sent s) @ [TrackingEvent sid ''scroll'' [(''scrollY'', Num (scrollY s))]])"
  by (simp add: run_timer_def reached_def scroll_fired_def sview_def logEvent_def bump_scrolls_def)

lemma tick_sview_wait:
  assumes "scrollTimeout s = Some t" and "Suc (now s) < t"
  shows "sview (tick s) = sview s"
proof -
  let ?x = "run_timer ActiveTick (s\<lparr>now := Suc (now s)\<rparr>)"
  have v: "sview ?x = sview s"
    by (simp add: run_timer_sview)
  then have "scrollTimeout ?x = Some t"
    using assms(1) by (simp add: sview_def)
  moreover have "now ?x < t"
    using assms(2) by simp
  ultimately have "run_timer ScrollFire ?x = ?x"
    by (rule run_timer_scroll_wait)
  then show ?thesis
    using v by (simp add: tick_sview)
qed

lemma tick_sview_fire:
  assumes "scrollTimeout s = Some t" and "t \<le> Suc (now s)"
    and "sessionId s = Some sid" and "sid \<noteq> []"
  shows "sview (tick s) =
     (isTracking s, Some sid, None, scrollY s, scrolls (metrics s) + 1,
      filter is_scroll (sent s) @ [TrackingEvent sid ''scroll'' [(''scrollY'', Num (scrollY s))]])"
proof -
  let ?x = "run_timer ActiveTick (s\<lparr>now := Suc (now s)\<rparr>)"
  have v: "sview ?x = sview s"
    by (simp add: run_timer_sview)
  then have f: "scrollTimeout ?x = Some t" "sessionId ?x = Some sid" "isTracking ?x = isTracking s"
    "scrollY ?x = scrollY s" "scrolls (metrics ?x) = scrolls (metrics s)"
    "filter is_scroll (sent ?x) = filter is_scroll (sent s)"
    using assms(1,3) by (simp_all add: sview_def)
  have "t \<le> now ?x"
    using assms(2) by simp
  from run_timer_scroll_fire [OF f(1) this f(2) assms(4)] show ?thesis
    by (simp only: tick_sview f)
qed

lemma advance_sview_wait:
  "scrollTimeout s = Some t \<Longrightarrow> now s + d < t \<Longrightarrow> sview (advance d s) = sview s"
proof (induction d arbitrary: s)
  case 0
  show ?case by simp
next
  case (Suc d)
  have 1: "sview (tick s) = sview s"
    using Suc.prems by (intro tick_sview_wait [of s t]) simp_all
  then have "scrollTimeout (tick s) = Some t"
    using Suc.prems(1) by (simp add: sview_def)
  then have "sview (advance d (tick s)) = sview (tick s)"
    using Suc.prems(2) by (intro Suc.IH) simp_all
  with 1 show ?case by simp
qed

lemma advance_sview_fire:
  assumes "scrollTimeout s = Some (now s + Suc d)" and "sessionId s = Some sid" and "sid \<noteq> []"
  shows "sview (advance (Suc d) s) =
     (isTracking s, Some sid, None, scrollY s, scrolls (metrics s) + 1,
      filter is_scroll (sent s) @ [TrackingEvent sid ''scroll'' [(''scrollY'', Num (scrollY s))]])"
proof -
  let ?x = "advance d s"
  have v: "sview ?x = sview s"
    using assms(1) by (intro advance_sview_wait [of s "now s + Suc d"]) simp_all
  then have f: "scrollTimeout ?x = Some (now s + Suc d)" "sessionId ?x = Some sid"
    "isTracking ?x = isTracking s" "scrollY ?x = scrollY s"
    "scrolls (metrics ?x) = scrolls (metrics s)"
    "filter is_scroll (sent ?x) = filter is_scroll (sent s)"
    using assms(1,2) by (simp_all add: sview_def)
  have "now s + Suc d \<le> Suc (now ?x)"
    by simp
  from tick_sview_fire [OF f(1) this f(2) assms(3)] show ?thesis
    by (simp only: advance_Suc_end f)
qed

lemma scroll_burst_fires_once:
  assumes "isTracking s" and "sessionId s = Some sid" and "sid \<noteq> []"
    and "scrollTimeout s = Some (now s + 100)" and "\<forall>p\<in>set rest. fst p < 100"
  shows "sview (run s (scroll_burst rest @ [Advance 100])) =
     (True, Some sid, None, last (scrollY s # map snd rest), scrolls (metrics s) + 1,
      filter is_scroll (sent s) @
        [TrackingEvent sid ''scroll'' [(''scrollY'', Num (last (scrollY s # map snd rest)))]])"
  using assms
proof (induction rest arbitrary: s)
  case Nil
  have "scrollTimeout s = Some (now s + Suc 99)"
    using Nil.prems(4) by simp
  from advance_sview_fire [OF this Nil.prems(2,3)] show ?case
    using Nil.prems(1) by simp
next
  case (Cons p rest)
  obtain g y where p: "p = (g, y)"
    by (cases p)
  let ?s1 = "advance g s"
  let ?s2 = "handle (ScrollEv y) ?s1"
  have g: "g < 100"
    using Cons.prems(5) p by simp
  have v: "sview ?s1 = sview s"
    using Cons.prems(4) g by (intro advance_sview_wait [of s "now s + 100"]) simp_all
  then have f: "isTracking ?s1" "sessionId ?s1 = Some sid"
    "scrolls (metrics ?s1) = scrolls (metrics s)"
    "filter is_scroll (sent ?s1) = filter is_scroll (sent s)"
    using Cons.prems(1,2) by (simp_all add: sview_def)
  have "sview (run ?s2 (scroll_burst rest @ [Advance 100])) =
     (True, Some sid, None, last (scrollY ?s2 # map snd rest), scrolls (metrics ?s2) + 1,
      filter is_scroll (sent ?s2) @
        [TrackingEvent sid ''scroll'' [(''scrollY'', Num (last (scrollY ?s2 # map snd rest)))]])"
  proof (rule Cons.IH)
    show "isTracking ?s2" "sessionId ?s2 = Some sid" "scrollTimeout ?s2 = Some (now ?s2 + 100)"
      using f by (simp_all add: handleScroll_def)
    show "sid \<noteq> []" by (rule Cons.prems(3))
    show "\<forall>p\<in>set rest. fst p < 100" using Cons.prems(5) by simp
  qed
  moreover have "scrollY ?s2 = y" "scrolls (metrics ?s2) = scrolls (metrics s)"
    "filter is_scroll (sent ?s2) = filter is_scroll (sent s)"
    using f by (simp_all add: handleScroll_def)
  ultimately show ?case
    by (simp add: p)
qed


subsection \<open>The mouse-move timeout while time passes\<close>

lemma mview_now [simp]: "mview (s\<lparr>now := n\<rparr>) = mview s"
  by (simp add: mview_def)

lemma run_timer_mview: "k \<noteq> MoveFire \<Longrightarrow> mview (run_timer k s) = mview s"
  by (cases k)
     (simp_all add: mview_def run_timer_def scroll_fired_def checkIdle_def resetIdle_def Let_def
        logEvent_sent getDriftAnalysis_sent bump_defs commit_same analysis_effect_def
        split: option.split)

lemma tick_mview:
  "mview (tick s) =
     mview (run_timer MoveFire (run_timer ScrollFire (run_timer ActiveTick
       (s\<lparr>now := Suc (now s)\<rparr>))))"
  by (simp add: tick_def run_timer_mview)

lemma run_timer_move_wait:
  "moveTimeout s = Some t \<Longrightarrow> now s < t \<Longrightarrow> run_timer MoveFire s = s"
  by (simp add: run_timer_def reached_def)

lemma run_timer_move_fire:
  "moveTimeout s = Some t \<Longrightarrow> t \<le> now s \<Longrightarrow> sessionId s = Some sid \<Longrightarrow> sid \<noteq> [] \<Longrightarrow>
   mview (run_timer MoveFire s) =
     (isTracking s, Some sid, None, 0,
      mouseMovements (metrics s) + (if 5 < moveCount s then 1 else 0),
      filter is_mousemove (sent s) @
        (if 5 < moveCount s
         then [TrackingEvent sid ''mousemove'' [(''count'', Num (int (moveCount s)))]]
         else []))"
  by (simp add: run_timer_def reached_def move_fired_def mview_def logEvent_def
      bump_mouseMovements_def Let_def)

lemma tick_mview_wait:
  assumes "moveTimeout s = Some t" and "Suc (now s) < t"
  shows "mview (tick s) = mview s"
proof -
  let ?x = "run_timer ScrollFire (run_timer ActiveTick (s\<lparr>now := Suc (now s)\<rparr>))"
  have v: "mview ?x = mview s"
    by (simp add: run_timer_mview)
  then have "moveTimeout ?x = Some t"
    using assms(1) by (simp add: mview_def)
  moreover have "now ?x < t"
    using assms(2) by simp
  ultimately have "run_timer MoveFire ?x = ?x"
    by (rule run_timer_move_wait)
  then show ?thesis
    using v by (simp add: tick_mview)
qed

lemma tick_mview_fire:
  assumes "moveTimeout s = Some t" and "t \<le> Suc (now s)"
    and "sessionId s = Some sid" and "sid \<noteq> []"
  shows "mview (tick s) =
     (isTracking s, Some sid, None, 0,
      mouseMovements (metrics s) + (if 5 < moveCount s then 1 else 0),
      filter is_mousemove (sent s) @
        (if 5 < moveCount s
         then [TrackingEvent sid ''mousemove'' [(''count'', Num (int (moveCount s)))]]
         else []))"
proof -
  let ?x = "run_timer ScrollFire (run_timer ActiveTick (s\<lparr>now := Suc (now s)\<rparr>))"
  have v: "mview ?x = mview s"
    by (simp add: run_timer_mview)
  then have f: "moveTimeout ?x = Some t" "sessionId ?x = Some sid" "isTracking ?x = isTracking s"
    "moveCount ?x = moveCount s" "mouseMovements (metrics ?x) = mouseMovements (metrics s)"
    "filter is_mousemove (sent ?x) = filter is_mousemove (sent s)"
    using assms(1,3) by (simp_all add: mview_def)
  have "t \<le> now ?x"
    using assms(2) by simp
  from run_timer_move_fire [OF f(1) this f(2) assms(4)] show ?thesis
    by (simp only: tick_mview f)
qed

lemma advance_mview_wait:
  "moveTimeout s = Some t \<Longrightarrow> now s + d < t \<Longrightarrow> mview (advance d s) = mview s"
proof (induction d arbitrary: s)
  case 0
  show ?case by simp
next
  case (Suc d)
  have 1: "mview (tick s) = mview s"
    using Suc.prems by (intro tick_mview_wait [of s t]) simp_all
  then have "moveTimeout (tick s) = Some t"
    using Suc.prems(1) by (simp add: mview_def)
  then have "mview (advance d (tick s)) = mview (tick s)"
    using Suc.prems(2) by (intro Suc.IH) simp_all
  with 1 show ?case by simp
qed

lemma advance_mview_fire:
  assumes "moveTimeout s = Some (now s + Suc d)" and "sessionId s = Some sid" and "sid \<noteq> []"
  shows "mview (advance (Suc d) s) =
     (isTracking s, Some sid, None, 0,
      mouseMovements (metrics s) + (if 5 < moveCount s then 1 else 0),
      filter is_mousemove (sent s) @
        (if 5 < moveCount s
         then [TrackingEvent sid ''mousemove'' [(''count'', Num (int (moveCount s)))]]
         else []))"
proof -
  let ?x = "advance d s"
  have v: "mview ?x = mview s"
    using assms(1) by (intro advance_mview_wait [of s "now s + Suc d"]) simp_all
  then have f: "moveTimeout ?x = Some (now s + Suc d)" "sessionId ?x = Some sid"
    "isTracking ?x = isTracking s" "moveCount ?x = moveCount s"
    "mouseMovements (metrics ?x) = mouseMovements (metrics s)"
    "filter is_mousemove (sent ?x) = filter is_mousemove (sent s)"
    using assms(1,2) by (simp_all add: mview_def)
  have "now s + Suc d \<le> Suc (now ?x)"
    by simp
  from tick_mview_fire [OF f(1) this f(2) assms(3)] show ?thesis
    by (simp only: advance_Suc_end f)
qed

lemma move_burst_settles:
  assumes "isTracking s" and "sessionId s = Some sid" and "sid \<noteq> []"
    and "moveTimeout s = Some (now s + 500)" and "\<forall>g\<in>set gaps. g < 500"
  shows "mview (run s (move_burst gaps @ [Advance 500])) =
     (True, Some sid, None, 0,
      mouseMovements (metrics s) + (if 5 < moveCount s + length gaps then 1 else 0),
      filter is_mousemove (sent s) @
        (if 5 < moveCount s + length gaps
         then [TrackingEvent sid ''mousemove''
                 [(''count'', Num (int (moveCount s + length gaps)))]]
         else []))"
  using assms
proof (induction gaps arbitrary: s)
  case Nil
  have "moveTimeout s = Some (now s + Suc 499)"
    using Nil.prems(4) by simp
  from advance_mview_fire [OF this Nil.prems(2,3)] show ?case
    using Nil.prems(1) by simp
next
  case (Cons g gaps)
  let ?s1 = "advance g s"
  let ?s2 = "handle MouseMoveEv ?s1"
  have g: "g < 500"
    using Cons.prems(5) by simp
  have v: "mview ?s1 = mview s"
    using Cons.prems(4) g by (intro advance_mview_wait [of s "now s + 500"]) simp_all
  then have f: "isTracking ?s1" "sessionId ?s1 = Some sid" "moveCount ?s1 = moveCount s"
    "mouseMovements (metrics ?s1) = mouseMovements (metrics s)"
    "filter is_mousemove (sent ?s1) = filter is_mousemove (sent s)"
    using Cons.prems(1,2) by (simp_all add: mview_def)
  have "mview (run ?s2 (move_burst gaps @ [Advance 500])) =
     (True, Some sid, None, 0,
      mouseMovements (metrics ?s2) + (if 5 < moveCount ?s2 + length gaps then 1 else 0),
      filter is_mousemove (sent ?s2) @
        (if 5 < moveCount ?s2 + length gaps
         then [TrackingEvent sid ''mousemove''
                 [(''count'', Num (int (moveCount ?s2 + length gaps)))]]
         else []))"
  proof (rule Cons.IH)
    show "isTracking ?s2" "sessionId ?s2 = Some sid" "moveTimeout ?s2 = Some (now ?s2 + 500)"
      using f by (simp_all add: handleMouseMove_def resetIdle_def)
    show "sid \<noteq> []" by (rule Cons.prems(3))
    show "\<forall>g\<in>set gaps. g < 500" using Cons.prems(5) by simp
  qed
  moreover have "moveCount ?s2 = Suc (moveCount s)"
    "mouseMovements (metrics ?s2) = mouseMovements (metrics s)"
    "filter is_mousemove (sent ?s2) = filter is_mousemove (sent s)"
    using f by (simp_all add: handleMouseMove_def resetIdle_def)
  ultimately show ?case
    by simp
qed

subsection \<open>With nothing pending at all\<close>

lemma dormant_quiet: "dormant s \<Longrightarrow> pending_timers s = []"
  by (simp add: dormant_def stopped_def pending_timers_def handle_list_def)

lemma dormant_handle:
  assumes "dormant s" and "\<not> restarts (Ev e)"
  shows "dormant (handle e s)"
  using assms
  by (cases e)
     (simp_all add: dormant_def stopped_def handleScroll_def handleClick_def
        handleVisibilityChange_def pending_at_def)

lemma dormant_advance:
  assumes "dormant s"
  shows "dormant (advance d s)"
proof -
  have "advance d s = s\<lparr>now := now s + d\<rparr>"
    by (rule advance_quiet) (simp add: dormant_quiet [OF assms])
  then show ?thesis
    using assms by (simp add: dormant_def stopped_def)
qed

lemma dormant_step: "dormant s \<Longrightarrow> \<not> restarts i \<Longrightarrow> dormant (step s i)"
  by (cases i) (simp_all add: dormant_handle dormant_advance)

lemma dormant_run: "dormant s \<Longrightarrow> \<forall>x\<in>set tr. \<not> restarts x \<Longrightarrow> dormant (run s tr)"
  by (induction tr arbitrary: s) (simp_all add: dormant_step)

section \<open>The claims\<close>

text \<open>
  C1. While tracking is on with a session id: a burst of scroll events, each less than
  100 ms after the one before, followed by 100 ms without a scroll, adds exactly 1 to
  \<open>scrolls\<close> and sends exactly one \<open>scroll\<close> report, which carries the vertical offset
  at the time the timeout fires, that is the offset left by the last scroll of the
  burst. Other timers may fire meanwhile; they neither count nor report a scroll.
\<close>

theorem scroll_burst_counted_once:
  assumes "isTracking s" and "sessionId s = Some sid" and "sid \<noteq> []"
    and "\<forall>p\<in>set rest. fst p < 100"
  shows "scrolls (metrics (run s (Ev (ScrollEv y0) # scroll_burst rest @ [Advance 100])))
           = scrolls (metrics s) + 1 \<and>
         filter is_scroll (sent (run s (Ev (ScrollEv y0) # scroll_burst rest @ [Advance 100])))
           = filter is_scroll (sent s) @
               [TrackingEvent sid ''scroll'' [(''scrollY'', Num (last (y0 # map snd rest)))]] \<and>
         scrollTimeout (run s (Ev (ScrollEv y0) # scroll_burst rest @ [Advance 100])) = None"
proof -
  let ?s1 = "handle (ScrollEv y0) s"
  have "sview (run ?s1 (scroll_burst rest @ [Advance 100])) =
     (True, Some sid, None, last (scrollY ?s1 # map snd rest), scrolls (metrics ?s1) + 1,
      filter is_scroll (sent ?s1) @
        [TrackingEvent sid ''scroll'' [(''scrollY'', Num (last (scrollY ?s1 # map snd rest)))]])"
    using assms by (intro scroll_burst_fires_once) (simp_all add: handleScroll_def)
  then show ?thesis
    using assms(1) by (simp add: sview_def handleScroll_def)
qed

text \<open>
  Three scroll events, 40 ms and 99 ms apart, in the first session.
\<close>

theorem scroll_burst_counted_once_witness:
  "isTracking session_s1 \<and> sessionId session_s1 = Some ''s1'' \<and>
   scrolls (metrics (run session_s1
      (Ev (ScrollEv 120) # scroll_burst [(40, 180), (99, 260)] @ [Advance 100]))) = 1 \<and>
   filter is_scroll (sent (run session_s1
      (Ev (ScrollEv 120) # scroll_burst [(40, 180), (99, 260)] @ [Advance 100])))
     = [TrackingEvent ''s1'' ''scroll'' [(''scrollY'', Num 260)]]"
proof -
  have a: "isTracking session_s1" and b: "sessionId session_s1 = Some ''s1''"
    and c: "''s1'' \<noteq> []"
    by (simp_all add: session_s1_eq)
  have d: "\<forall>p\<in>set [(40, 180), (99, 260::int)]. fst p < (100::nat)"
    by simp
  have e: "scrolls (metrics session_s1) + 1 = 1"
    "filter is_scroll (sent session_s1) @
       [TrackingEvent ''s1'' ''scroll''
          [(''scrollY'', Num (last (120 # map snd [(40::nat, 180), (99, 260)])))]]
     = [TrackingEvent ''s1'' ''scroll'' [(''scrollY'', Num 260)]]"
    by (simp_all add: session_s1_eq initial_metrics_def)
  show ?thesis
    using scroll_burst_counted_once [OF a b c d, of 120] a b
    by (simp only: e)
qed


text \<open>
  C2. While tracking is on with a session id: after mouse moves, each less than 500 ms
  after the one before, and 500 ms without a move, the accumulator \<open>moveCount\<close> is 0
  again. If the accumulated count (what the accumulator held before, plus the moves of
  the burst) exceeds 5, \<open>mouseMovements\<close> has grown by exactly 1 and exactly one
  \<open>mousemove\<close> report with that count has been sent; otherwise the counter is unchanged
  and no \<open>mousemove\<close> report has been sent.
\<close>

theorem move_burst_reported_above_five:
  assumes "isTracking s" and "sessionId s = Some sid" and "sid \<noteq> []"
    and "\<forall>g\<in>set gaps. g < 500"
  shows "moveCount (run s (Ev MouseMoveEv # move_burst gaps @ [Advance 500])) = 0 \<and>
         (5 < moveCount s + Suc (length gaps) \<longrightarrow>
            mouseMovements (metrics (run s (Ev MouseMoveEv # move_burst gaps @ [Advance 500])))
              = mouseMovements (metrics s) + 1 \<and>
            filter is_mousemove (sent (run s (Ev MouseMoveEv # move_burst gaps @ [Advance 500])))
              = filter is_mousemove (sent s) @
                  [TrackingEvent sid ''mousemove''
                     [(''count'', Num (int (moveCount s + Suc (length gaps))))]]) \<and>
         (\<not> 5 < moveCount s + Suc (length gaps) \<longrightarrow>
            mouseMovements (metrics (run s (Ev MouseMoveEv # move_burst gaps @ [Advance 500])))
              = mouseMovements (metrics s) \<and>
            filter is_mousemove (sent (run s (Ev MouseMoveEv # move_burst gaps @ [Advance 500])))
              = filter is_mousemove (sent s))"
proof -
  let ?s1 = "handle MouseMoveEv s"
  have "mview (run ?s1 (move_burst gaps @ [Advance 500])) =
     (True, Some sid, None, 0,
      mouseMovements (metrics ?s1) + (if 5 < moveCount ?s1 + length gaps then 1 else 0),
      filter is_mousemove (sent ?s1) @
        (if 5 < moveCount ?s1 + length gaps
         then [TrackingEvent sid ''mousemove''
                 [(''count'', Num (int (moveCount ?s1 + length gaps)))]]
         else []))"
    using assms
    by (intro move_burst_settles) (simp_all add: handleMouseMove_def resetIdle_def)
  then show ?thesis
    using assms(1) by (simp add: mview_def handleMouseMove_def resetIdle_def)
qed

text \<open>
  Six moves in the first session are reported as one burst; five moves are not.
\<close>

theorem move_burst_reported_above_five_witness:
  "isTracking session_s1 \<and> sessionId session_s1 = Some ''s1'' \<and>
   5 < moveCount session_s1 + Suc (length [100, 499, 20, 3, 250::nat]) \<and>
   moveCount (run session_s1
      (Ev MouseMoveEv # move_burst [100, 499, 20, 3, 250] @ [Advance 500])) = 0 \<and>
   mouseMovements (metrics (run session_s1
      (Ev MouseMoveEv # move_burst [100, 499, 20, 3, 250] @ [Advance 500]))) = 1 \<and>
   filter is_mousemove (sent (run session_s1
      (Ev MouseMoveEv # move_burst [100, 499, 20, 3, 250] @ [Advance 500])))
     = [TrackingEvent ''s1'' ''mousemove'' [(''count'', Num 6)]] \<and>
   \<not> 5 < moveCount session_s1 + Suc (length [100, 499, 20, 3::nat]) \<and>
   moveCount (run session_s1
      (Ev MouseMoveEv # move_burst [100, 499, 20, 3] @ [Advance 500])) = 0 \<and>
   mouseMovements (metrics (run session_s1
      (Ev MouseMoveEv # move_burst [100, 499, 20, 3] @ [Advance 500]))) = 0 \<and>
   filter is_mousemove (sent (run session_s1
      (Ev MouseMoveEv # move_burst [100, 499, 20, 3] @ [Advance 500]))) = []"
proof -
  have a: "isTracking session_s1" and b: "sessionId session_s1 = Some ''s1''"
    and c: "''s1'' \<noteq> []"
    by (simp_all add: session_s1_eq)
  have d: "\<forall>g\<in>set [100, 499, 20, 3, 250::nat]. g < 500" "\<forall>g\<in>set [100, 499, 20, 3::nat]. g < 500"
    by simp_all
  have e: "5 < moveCount session_s1 + Suc (length [100, 499, 20, 3, 250::nat])"
    "\<not> 5 < moveCount session_s1 + Suc (length [100, 499, 20, 3::nat])"
    "mouseMovements (metrics session_s1) + 1 = 1"
    "mouseMovements (metrics session_s1) = 0"
    "filter is_mousemove (sent session_s1) @
       [TrackingEvent ''s1'' ''mousemove''
          [(''count'', Num (int (moveCount session_s1 + Suc (length [100, 499, 20, 3, 250::nat]))))]]
     = [TrackingEvent ''s1'' ''mousemove'' [(''count'', Num 6)]]"
    "filter is_mousemove (sent session_s1) = []"
    by (simp_all add: session_s1_eq initial_metrics_def)
  have 1: "moveCount (run session_s1
      (Ev MouseMoveEv # move_burst [100, 499, 20, 3, 250] @ [Advance 500])) = 0 \<and>
   mouseMovements (metrics (run session_s1
      (Ev MouseMoveEv # move_burst [100, 499, 20, 3, 250] @ [Advance 500]))) = 1 \<and>
   filter is_mousemove (sent (run session_s1
      (Ev MouseMoveEv # move_burst [100, 499, 20, 3, 250] @ [Advance 500])))
     = [TrackingEvent ''s1'' ''mousemove'' [(''count'', Num 6)]]"
    using move_burst_reported_above_five [OF a b c d(1)] e(1)
    by (simp only: e(3,5))
  have 2: "moveCount (run session_s1
      (Ev MouseMoveEv # move_burst [100, 499, 20, 3] @ [Advance 500])) = 0 \<and>
   mouseMovements (metrics (run session_s1
      (Ev MouseMoveEv # move_burst [100, 499, 20, 3] @ [Advance 500]))) = 0 \<and>
   filter is_mousemove (sent (run session_s1
      (Ev MouseMoveEv # move_burst [100, 499, 20, 3] @ [Advance 500]))) = []"
    using move_burst_reported_above_five [OF a b c d(2)] e(2)
    by (simp only: e(4,6)) blast
  show ?thesis
    using a b e(1,2) 1 2 by blast
qed

text \<open>
  C7. Every counter of the metrics snapshot only grows: a handler or a timer callback
  leaves the snapshot alone or adds 1 (5 for \<open>idleTime\<close>) to one field and keeps the
  others, and over any sequence of events and any passage of time no counter
  decreases.
\<close>

theorem counters_monotone:
  "bumped (metrics s) (metrics (handle e s)) \<and>
   bumped (metrics s) (metrics (fire k s)) \<and>
   metrics_le (metrics s) (metrics (run s tr))"
  by (simp add: handle_bumped fire_bumped run_le)

text \<open>
  C10. \<open>tabCount\<close> starts at 1 and is 1 in every state the mounted component can reach,
  whatever events, timers and settled requests occur.
\<close>

theorem tabCount_constant:
  "tabCount (metrics initial) = 1 \<and> tabCount (metrics (run mounted tr)) = 1"
proof -
  have "metrics_le (metrics mounted) (metrics (run mounted tr))"
    by (rule run_le)
  then have "tabCount (metrics (run mounted tr)) = tabCount (metrics mounted)"
    by (simp add: metrics_le_def)
  then show ?thesis
    by (simp add: mounted_def startSession_def initial_def initial_metrics_def)
qed

text \<open>
  C3. The callback of the 5-second idle interval, in a session with an id: when more
  than 5 seconds have passed since \<open>idleStartTime\<close>, it adds exactly 5 to \<open>idleTime\<close>
  (and touches no other counter), sends one \<open>idle\<close> report with duration 5 and sets
  \<open>idleStartTime\<close> to the current time; otherwise it changes nothing, the reference
  time included (the interval alone is due again 5 seconds later). The reference time
  is the time of the last mouse move or key press, which both set it while tracking.
\<close>

theorem checkIdle_sampling:
  assumes "sessionId s = Some sid" and "sid \<noteq> []"
  shows "(5000 < now s - idleStartTime s \<longrightarrow>
            metrics (fire IdleCheck s) = (metrics s)\<lparr>idleTime := idleTime (metrics s) + 5\<rparr> \<and>
            sent (fire IdleCheck s) = sent s @ [TrackingEvent sid ''idle'' [(''duration'', Num 5)]] \<and>
            idleStartTime (fire IdleCheck s) = now s) \<and>
         (\<not> 5000 < now s - idleStartTime s \<longrightarrow>
            fire IdleCheck s = s\<lparr>idleTimer := Some (now s + 5000)\<rparr>) \<and>
         idleTimer (fire IdleCheck s) = Some (now s + 5000) \<and>
         (isTracking s \<longrightarrow>
            idleStartTime (handle MouseMoveEv s) = now s \<and>
            idleStartTime (handle KeyPressEv s) = now s)"
  using assms
  by (simp add: checkIdle_def resetIdle_def bump_idleTime_def logEvent_def handleMouseMove_def)

text \<open>
  Both branches on a run: 9.999 seconds after the start without activity the gap
  exceeds 5 seconds; 3 seconds after the start it does not.
\<close>

theorem checkIdle_sampling_witness:
  "sessionId session_s1_idle = Some ''s1'' \<and> ''s1'' \<noteq> [] \<and> isTracking session_s1_idle \<and>
   5000 < now session_s1_idle - idleStartTime session_s1_idle \<and>
   idleTime (metrics (fire IdleCheck session_s1_idle)) = 5 \<and>
   sent (fire IdleCheck session_s1_idle) =
     [SessionStart, TrackingEvent ''s1'' ''idle'' [(''duration'', Num 5)]] \<and>
   idleStartTime (fire IdleCheck session_s1_idle) = 9999 \<and>
   sessionId session_s1_3s = Some ''s1'' \<and>
   \<not> 5000 < now session_s1_3s - idleStartTime session_s1_3s \<and>
   fire IdleCheck session_s1_3s = session_s1_3s\<lparr>idleTimer := Some 8000\<rparr>"
proof -
  have a: "sessionId session_s1_idle = Some ''s1''" and b: "''s1'' \<noteq> []"
    and c: "sessionId session_s1_3s = Some ''s1''"
    by (simp_all add: session_s1_idle_eq session_s1_3s_eq session_s1_eq)
  show ?thesis
    using checkIdle_sampling [OF a b] checkIdle_sampling [OF c b]
    by (simp add: session_s1_idle_eq session_s1_3s_eq session_s1_eq initial_metrics_def)
qed

text \<open>
  C9. A rejected event report and a rejected analysis fetch remove the request from
  those in flight and write one diagnostic; nothing else changes, so \<open>driftAnalysis\<close>,
  \<open>showAlert\<close>, the counters and the session are as before and no request is sent
  again. A rejected session delete writes its diagnostic and otherwise ends as a
  successful one does.
\<close>

theorem failures_swallowed:
  "(pending_at i s = Some PEvent \<longrightarrow>
      handle (EventSettled i Rejected) s =
        (take_pending i s)\<lparr>console := console s @ [''Error logging event:'']\<rparr>) \<and>
   (pending_at j s = Some (PAnalysis a) \<longrightarrow>
      handle (AnalysisSettled j Rejected) s =
        (take_pending j s)\<lparr>console := console s @ [''Error getting drift analysis:'']\<rparr>) \<and>
   (pending_at k s = Some PDelete \<longrightarrow>
      handle (DeleteSettled k Rejected) s =
        (handle (DeleteSettled k (Resolved ())) s)\<lparr>console := console s @ [''Error ending session:'']\<rparr>)"
  by (simp add: settled_defs take_pending_def commit_def effect_defs Let_def)

text \<open>
  On the run that has an idle report, an analysis poll and the session delete in
  flight at once.
\<close>

theorem failures_swallowed_witness:
  "pending_at 0 session_s1_stopping = Some PEvent \<and>
   pending_at 1 session_s1_stopping = Some (PAnalysis False) \<and>
   pending_at 2 session_s1_stopping = Some PDelete \<and>
   handle (EventSettled 0 Rejected) session_s1_stopping =
     session_s1_stopping\<lparr>inflight := [PAnalysis False, PDelete],
                            console := [''Error logging event:'']\<rparr> \<and>
   handle (AnalysisSettled 1 Rejected) session_s1_stopping =
     session_s1_stopping\<lparr>inflight := [PEvent, PDelete],
                            console := [''Error getting drift analysis:'']\<rparr> \<and>
   handle (DeleteSettled 2 Rejected) session_s1_stopping =
     (handle (DeleteSettled 2 (Resolved ())) session_s1_stopping)
       \<lparr>console := [''Error ending session:'']\<rparr>"
  using failures_swallowed [of 0 session_s1_stopping 1 False 2]
  by (simp add: session_s1_stopping_eq session_s1_eq pending_at_def take_pending_def)

text \<open>
  C4. A start request that is rejected while tracking is off only leaves the requests
  in flight and writes a diagnostic. From then on, as long as the user does not click
  Start and no other start request succeeds, tracking stays off, no effect timer is
  set, the session id, the counters and the list of requests sent stay as they were:
  nothing is sent again. Where the failed request was the only one in flight and no
  dismissal of an alert was pending, as for the start request of the mount effect
  (whose session id is the initial \<open>null\<close>), no timer at all is pending afterwards
  and nothing is in flight.
\<close>

theorem failed_start_inert:
  assumes "pending_at i s = Some PStart" and "stopped s" and "\<forall>x\<in>set tr. \<not> restarts x"
  shows "handle (StartSettled i Rejected) s =
           (take_pending i s)\<lparr>console := console s @ [''Error starting session:'']\<rparr> \<and>
         stopped (run (handle (StartSettled i Rejected) s) tr) \<and>
         sessionId (run (handle (StartSettled i Rejected) s) tr) = sessionId s \<and>
         metrics (run (handle (StartSettled i Rejected) s) tr) = metrics s \<and>
         sent (run (handle (StartSettled i Rejected) s) tr) = sent s \<and>
         (alertTimers s = [] \<and> inflight s = [PStart] \<longrightarrow>
            pending_timers (run (handle (StartSettled i Rejected) s) tr) = [] \<and>
            inflight (run (handle (StartSettled i Rejected) s) tr) = [])"
proof -
  let ?s1 = "handle (StartSettled i Rejected) s"
  have 1: "frozen s ?s1"
    using assms(2) by (intro stopped_handle) simp_all
  have "frozen ?s1 (run ?s1 tr)"
    using assms(3) by (intro stopped_run frozen_stopped [OF 1])
  with 1 have 2: "frozen s (run ?s1 tr)"
    by (rule frozen_trans)
  have 3: "dormant (run ?s1 tr)" if "alertTimers s = []" and "inflight s = [PStart]"
  proof -
    have "i = 0"
      using assms(1) that(2) by (simp add: pending_at_def split: if_splits)
    then have "dormant ?s1"
      using assms(2) that
      by (simp add: dormant_def stopped_def pending_at_def startSession_settled_def
          take_pending_def)
    then show ?thesis
      using assms(3) by (rule dormant_run)
  qed
  have 4: "alertTimers s = [] \<and> inflight s = [PStart] \<longrightarrow>
      pending_timers (run ?s1 tr) = [] \<and> inflight (run ?s1 tr) = []"
    using 3 dormant_quiet by (auto simp: dormant_def)
  have 5: "?s1 = (take_pending i s)\<lparr>console := console s @ [''Error starting session:'']\<rparr>"
    using assms(1) by (simp add: startSession_settled_def take_pending_def)
  show ?thesis
    using 2 [unfolded frozen_def] 4 5 by blast
qed

text \<open>
  The request of the mount effect fails; the user then scrolls, clicks, moves the
  mouse, waits 12 seconds, presses a key and hides the tab.
\<close>

theorem failed_start_inert_witness:
  "pending_at 0 mounted = Some PStart \<and> stopped mounted \<and> sessionId mounted = None \<and>
   alertTimers mounted = [] \<and> inflight mounted = [PStart] \<and>
   stopped (run (handle (StartSettled 0 Rejected) mounted)
     [Ev (ScrollEv 40), Ev (ClickEv 3 4), Ev MouseMoveEv, Advance 12000,
      Ev KeyPressEv, Ev (VisibilityEv True), Ev StopClicked]) \<and>
   sessionId (run (handle (StartSettled 0 Rejected) mounted)
     [Ev (ScrollEv 40), Ev (ClickEv 3 4), Ev MouseMoveEv, Advance 12000,
      Ev KeyPressEv, Ev (VisibilityEv True), Ev StopClicked]) = None \<and>
   metrics (run (handle (StartSettled 0 Rejected) mounted)
     [Ev (ScrollEv 40), Ev (ClickEv 3 4), Ev MouseMoveEv, Advance 12000,
      Ev KeyPressEv, Ev (VisibilityEv True), Ev StopClicked]) = initial_metrics \<and>
   sent (run (handle (StartSettled 0 Rejected) mounted)
     [Ev (ScrollEv 40), Ev (ClickEv 3 4), Ev MouseMoveEv, Advance 12000,
      Ev KeyPressEv, Ev (VisibilityEv True), Ev StopClicked]) = [SessionStart] \<and>
   pending_timers (run (handle (StartSettled 0 Rejected) mounted)
     [Ev (ScrollEv 40), Ev (ClickEv 3 4), Ev MouseMoveEv, Advance 12000,
      Ev KeyPressEv, Ev (VisibilityEv True), Ev StopClicked]) = [] \<and>
   inflight (run (handle (StartSettled 0 Rejected) mounted)
     [Ev (ScrollEv 40), Ev (ClickEv 3 4), Ev MouseMoveEv, Advance 12000,
      Ev KeyPressEv, Ev (VisibilityEv True), Ev StopClicked]) = []"
proof -
  have a: "pending_at 0 mounted = Some PStart" and b: "stopped mounted"
    and c: "sessionId mounted = None" "metrics mounted = initial_metrics"
      "sent mounted = [SessionStart]"
    and e: "alertTimers mounted = []" "inflight mounted = [PStart]"
    by (simp_all add: mounted_def startSession_def initial_def pending_at_def stopped_def)
  have d: "\<forall>x\<in>set [Ev (ScrollEv 40), Ev (ClickEv 3 4), Ev MouseMoveEv, Advance 12000,
              Ev KeyPressEv, Ev (VisibilityEv True), Ev StopClicked]. \<not> restarts x"
    by simp
  show ?thesis
    using failed_start_inert [OF a b d, THEN conjunct2] a b c(1) e
    by (simp only: c)
qed

text \<open>
  C6, as the code has it. When the delete request of Stop settles, resolved or
  rejected, while tracking is on, \<open>isTracking\<close> becomes false and the timers of the
  active-time, scroll, mouse-move, idle and analysis effects are cleared. From then on,
  as long as the user does not click Start and no start request succeeds, tracking
  stays off, no counter changes and no request is sent, whatever reports, polls or
  deletes still in flight settle meanwhile.
\<close>

theorem stop_clears_tracking:
  assumes "pending_at i s = Some PDelete" and "isTracking s" and "\<forall>x\<in>set tr. \<not> restarts x"
  shows "stopped (handle (DeleteSettled i r) s) \<and>
         stopped (run (handle (DeleteSettled i r) s) tr) \<and>
         metrics (run (handle (DeleteSettled i r) s) tr) = metrics s \<and>
         sent (run (handle (DeleteSettled i r) s) tr) = sent s"
proof -
  let ?s1 = "handle (DeleteSettled i r) s"
  have 1: "frozen s ?s1"
    using assms(1,2)
    by (cases r)
       (simp_all add: frozen_def stopped_def stopTracking_settled_def take_pending_def
          commit_def effect_defs Let_def)
  have "frozen ?s1 (run ?s1 tr)"
    using assms(3) by (intro stopped_run frozen_stopped [OF 1])
  with 1 have "frozen s (run ?s1 tr)"
    by (rule frozen_trans)
  with 1 show ?thesis
    by (simp add: frozen_def)
qed

text \<open>
  Stop is rejected while an idle report and an analysis poll are in flight; the poll
  then answers with a drifting result, the report fails, and the user keeps clicking
  and scrolling.
\<close>

theorem stop_clears_tracking_witness:
  "pending_at 2 session_s1_stopping = Some PDelete \<and> isTracking session_s1_stopping \<and>
   stopped (handle (DeleteSettled 2 Rejected) session_s1_stopping) \<and>
   stopped (run (handle (DeleteSettled 2 Rejected) session_s1_stopping)
     [Ev (AnalysisSettled 1 (Resolved drifting)), Ev (EventSettled 0 Rejected),
      Advance 6000, Ev (ClickEv 7 9), Ev (ScrollEv 120), Advance 200]) \<and>
   metrics (run (handle (DeleteSettled 2 Rejected) session_s1_stopping)
     [Ev (AnalysisSettled 1 (Resolved drifting)), Ev (EventSettled 0 Rejected),
      Advance 6000, Ev (ClickEv 7 9), Ev (ScrollEv 120), Advance 200])
     = initial_metrics\<lparr>activeTime := 10, idleTime := 5\<rparr> \<and>
   sent (run (handle (DeleteSettled 2 Rejected) session_s1_stopping)
     [Ev (AnalysisSettled 1 (Resolved drifting)), Ev (EventSettled 0 Rejected),
      Advance 6000, Ev (ClickEv 7 9), Ev (ScrollEv 120), Advance 200])
     = [SessionStart, TrackingEvent ''s1'' ''idle'' [(''duration'', Num 5)],
        GetAnalysis ''s1'', DeleteSession ''s1'']"
proof -
  have a: "pending_at 2 session_s1_stopping = Some PDelete"
    and b: "isTracking session_s1_stopping"
    by (simp_all add: session_s1_stopping_eq session_s1_eq pending_at_def)
  have c: "\<forall>x\<in>set [Ev (AnalysisSettled 1 (Resolved drifting)), Ev (EventSettled 0 Rejected),
              Advance 6000, Ev (ClickEv 7 9), Ev (ScrollEv 120), Advance 200]. \<not> restarts x"
    by simp
  have d: "metrics session_s1_stopping = initial_metrics\<lparr>activeTime := 10, idleTime := 5\<rparr>"
    "sent session_s1_stopping =
       [SessionStart, TrackingEvent ''s1'' ''idle'' [(''duration'', Num 5)],
        GetAnalysis ''s1'', DeleteSession ''s1'']"
    by (simp_all add: session_s1_stopping_eq session_s1_eq)
  show ?thesis
    using stop_clears_tracking [OF a b c, of Rejected] a b
    by (simp only: d)
qed

text \<open>
  C6 as stated fails for a start request still in flight. The user clicked Start while
  the request of the mount effect was out, so two start requests were sent; the first
  started the session \<open>a\<close>, which the user stopped. When the second request is answered
  after the stop has completed, tracking is on again: the next click is counted and
  reported.
\<close>

theorem late_start_resumes_tracking:
  "pending_at 1 double_start_stopping = Some PDelete \<and> isTracking double_start_stopping \<and>
   stopped (handle (DeleteSettled 1 (Resolved ())) double_start_stopping) \<and>
   \<not> stopped (run (handle (DeleteSettled 1 (Resolved ())) double_start_stopping)
        [Ev (StartSettled 0 (Resolved (Some ''b''))), Ev (ClickEv 7 9)]) \<and>
   metrics (run (handle (DeleteSettled 1 (Resolved ())) double_start_stopping)
        [Ev (StartSettled 0 (Resolved (Some ''b''))), Ev (ClickEv 7 9)])
     \<noteq> metrics double_start_stopping \<and>
   sent (run (handle (DeleteSettled 1 (Resolved ())) double_start_stopping)
        [Ev (StartSettled 0 (Resolved (Some ''b''))), Ev (ClickEv 7 9)])
     = sent double_start_stopping @ [TrackingEvent ''b'' ''click'' [(''x'', Num 7), (''y'', Num 9)]]"
  by (simp add: double_start_stopping_eq eval_defs stopped_def)

text \<open>
  C8. Whatever happens in one step (an event, or any stretch of time with the timers
  that fire in it), the requests sent only grow, and every event report added carries
  the session id current at that step and one of the types scroll, click, mousemove,
  idle, visibility. In every run of the mounted component, every event report sent
  has one of these five types.
\<close>

theorem reports_well_formed:
  "sent (step s i) = sent s @ new_requests s (step s i) \<and>
   list_all (report_ok (sessionId s)) (new_requests s (step s i)) \<and>
   list_all known_type (sent (run mounted tr))"
proof -
  have "sent (step s i) = take (length (sent s)) (sent (step s i)) @ new_requests s (step s i)"
    by (simp add: new_requests_def)
  then have "sent (step s i) = sent s @ new_requests s (step s i)"
    by (simp add: step_sent)
  moreover have "list_all known_type (sent mounted)"
    by (simp add: mounted_def startSession_def initial_def)
  ultimately show ?thesis
    by (simp add: step_sent run_known)
qed

text \<open>
  C5 on a run where the backend is slow. Three polls are in flight, all issued while
  no alert was shown, so each of them holds \<open>showAlert = false\<close>. The first drifting
  result, at 30 s, raises the alert and arms its dismissal for 35 s. The second
  arrives at 31 s, while the alert is showing: the test \<open>!showAlert\<close> reads the value
  the poll was issued with, so the branch runs again and arms a second dismissal,
  for 36 s. The alert goes at 35 s. The third result, at 35.5 s, raises a new alert
  while none is showing, with its dismissal armed for 40.5 s; the timeout left by
  the second result removes it at 36 s, half a second after it appeared.
\<close>

theorem second_drifting_result_rearms_dismissal:
  "showAlert three_polls = False \<and> alertTimers three_polls = [] \<and>
   now three_polls = 30000 \<and>
   pending_at 1 three_polls = Some (PAnalysis False) \<and>
   pending_at 3 three_polls = Some (PAnalysis False) \<and>
   pending_at 5 three_polls = Some (PAnalysis False) \<and>
   showAlert (run three_polls [Ev (AnalysisSettled 1 (Resolved drifting))]) = True \<and>
   alertTimers (run three_polls [Ev (AnalysisSettled 1 (Resolved drifting))]) = [35000] \<and>
   showAlert (run three_polls
     [Ev (AnalysisSettled 1 (Resolved drifting)), Advance 1000]) = True \<and>
   pending_at 2 (run three_polls
     [Ev (AnalysisSettled 1 (Resolved drifting)), Advance 1000]) = Some (PAnalysis False) \<and>
   alertTimers (run three_polls
     [Ev (AnalysisSettled 1 (Resolved drifting)), Advance 1000,
      Ev (AnalysisSettled 2 (Resolved drifting))]) = [35000, 36000] \<and>
   showAlert (run three_polls
     [Ev (AnalysisSettled 1 (Resolved drifting)), Advance 1000,
      Ev (AnalysisSettled 2 (Resolved drifting)), Advance 4500]) = False \<and>
   showAlert (run three_polls
     [Ev (AnalysisSettled 1 (Resolved drifting)), Advance 1000,
      Ev (AnalysisSettled 2 (Resolved drifting)), Advance 4500,
      Ev (AnalysisSettled 3 (Resolved drifting))]) = True \<and>
   now (run three_polls
     [Ev (AnalysisSettled 1 (Resolved drifting)), Advance 1000,
      Ev (AnalysisSettled 2 (Resolved drifting)), Advance 4500,
      Ev (AnalysisSettled 3 (Resolved drifting))]) = 35500 \<and>
   alertTimers (run three_polls
     [Ev (AnalysisSettled 1 (Resolved drifting)), Advance 1000,
      Ev (AnalysisSettled 2 (Resolved drifting)), Advance 4500,
      Ev (AnalysisSettled 3 (Resolved drifting))]) = [36000, 40500] \<and>
   showAlert (run three_polls
     [Ev (AnalysisSettled 1 (Resolved drifting)), Advance 1000,
      Ev (AnalysisSettled 2 (Resolved drifting)), Advance 4500,
      Ev (AnalysisSettled 3 (Resolved drifting)), Advance 500]) = False \<and>
   now (run three_polls
     [Ev (AnalysisSettled 1 (Resolved drifting)), Advance 1000,
      Ev (AnalysisSettled 2 (Resolved drifting)), Advance 4500,
      Ev (AnalysisSettled 3 (Resolved drifting)), Advance 500]) = 36000"
  by (simp add: three_polls_eq session_s1_eq drifting_def advance_jump eval_defs)
end
